theory Spec2Isabelle
  imports Complex_Main
begin

section \<open>Text and the shaper's measurements\<close>

text \<open>
  A Python \<open>str\<close> is a sequence of Unicode code points, so a passage is a list of
  natural numbers (one per code point). Configuration values that only ever hold
  ASCII (colours, positions, file names) are kept as \<open>string\<close>.

  A Python float is a double, and every double is a rational: floats are modelled as
  rationals. Widths, heights and durations are mostly compared with each other and
  with integers, which is exact. Where the source multiplies or divides floats on the
  way to a pixel count (the box alpha, the width of the progress bar), the model
  rounds each operation to the nearest double, as the hardware does.
\<close>

type_synonym pystr = "nat list"

text \<open>\<open>contains_complex_script\<close>: any code point in U+0900 .. U+0FFF.\<close>

fun contains_complex_script :: "pystr \<Rightarrow> bool" where
  "contains_complex_script [] = False"
| "contains_complex_script (ch # text) =
     (if 2304 \<le> ch \<and> ch \<le> 4095 then True else contains_complex_script text)"

text \<open>
  \<open>str.split()\<close> with no argument splits at runs of white space and returns no empty
  word. \<open>isspace\<close> lists the code points Python 3 treats as white space.
\<close>

definition isspace :: "nat \<Rightarrow> bool" where
  "isspace c \<longleftrightarrow>
     (9 \<le> c \<and> c \<le> 13) \<or> (28 \<le> c \<and> c \<le> 32) \<or> c = 133 \<or> c = 160 \<or> c = 5760 \<or>
     (8192 \<le> c \<and> c \<le> 8202) \<or> c = 8232 \<or> c = 8233 \<or> c = 8239 \<or> c = 8287 \<or> c = 12288"

fun split_from :: "pystr \<Rightarrow> pystr \<Rightarrow> pystr list" where
  "split_from [] word = (if word = [] then [] else [word])"
| "split_from (c # cs) word =
     (if isspace c then (if word = [] then split_from cs [] else word # split_from cs [])
      else split_from cs (word @ [c]))"

definition str_split :: "pystr \<Rightarrow> pystr list" where
  "str_split text = split_from text []"

text \<open>\<open>" ".join(ws)\<close>: the words with one space (code point 32) between them.\<close>

fun join_sp :: "pystr list \<Rightarrow> pystr" where
  "join_sp [] = []"
| "join_sp [w] = w"
| "join_sp (w # v # ws) = w @ [32] @ join_sp (v # ws)"

section \<open>The greedy line breaker of the complex-script path\<close>

text \<open>
  Lines 160 to 171 of \<open>render_text_image\<close>:
  \<^verbatim>\<open>
    lines, current = [], ""
    while words:
        trial = current + " " + words[0] if current else words[0]
        _, w = shape_line(trial, font_size)
        if w <= max_width:
            current = trial
            words.pop(0)
        else:
            lines.append(current)
            current = ""
    if current:
        lines.append(current)
  \<close>
  The loop has no bound in the source, so the model counts iterations: the first
  argument is the number of loop bodies that may still run, and \<open>None\<close> says the loop
  has not returned within that many. \<open>shape\<close> is the shaper's total advance in pixels
  of a trial line at the run's font size (HarfBuzz, outside this program).
\<close>

fun wrap_loop ::
  "nat \<Rightarrow> (pystr \<Rightarrow> rat) \<Rightarrow> rat \<Rightarrow> pystr list \<Rightarrow> pystr \<Rightarrow> pystr list \<Rightarrow> pystr list option"
where
  "wrap_loop fuel shape max_width [] current lines =
     Some (if current \<noteq> [] then lines @ [current] else lines)"
| "wrap_loop 0 shape max_width (w # ws) current lines = None"
| "wrap_loop (Suc fuel) shape max_width (w # ws) current lines =
     (let trial = (if current \<noteq> [] then current @ [32] @ w else w) in
      if shape trial \<le> max_width then wrap_loop fuel shape max_width ws trial lines
      else wrap_loop fuel shape max_width (w # ws) [] (lines @ [current]))"

text \<open>\<open>max_width = size[0] - 100\<close>, \<open>words = text.split()\<close>.\<close>

definition wrap_text :: "nat \<Rightarrow> (pystr \<Rightarrow> rat) \<Rightarrow> int \<Rightarrow> pystr \<Rightarrow> pystr list option" where
  "wrap_text fuel shape width text =
     wrap_loop fuel shape (of_int (width - 100)) (str_split text) [] []"

text \<open>
  A sample shaper for the concrete runs below: every code point advances the pen by
  the same number of pixels.
\<close>

definition fixed_advance :: "nat \<Rightarrow> pystr \<Rightarrow> rat" where
  "fixed_advance px t = of_nat (px * length t)"

section \<open>The world outside the program\<close>

text \<open>
  The program reads files, loads fonts, parses colours and draws random numbers. These
  are parameters of the model: \<open>fsys\<close> says what a path names, \<open>font_loads\<close> whether
  FreeType can open a font file, \<open>getrgb\<close> is \<open>ImageColor.getrgb\<close> for colours
  without an alpha channel (\<open>None\<close> where it raises \<open>ValueError\<close>), \<open>shape_line\<close>
  the shaper's advance of a text in a font at a
  size, \<open>textwrap_wrap\<close> is \<open>textwrap.wrap(text, width=28)\<close>, \<open>getsize_A\<close> the
  height \<open>font.getsize("A")[1]\<close>, \<open>choice\<close> the draw of \<open>random.choice\<close> for a
  slide, \<open>audio_file\<close> the duration of an audio file (\<open>None\<close> where it cannot be
  read), and \<open>chunk_past_end\<close> whether the encoder's chunks fall past the end of an
  audio file that its clip outlasts by less than a tenth of a second.
\<close>

datatype fs_entry = Missing | ImageFile | OtherFile | Dir "string list"

datatype error =
  IsADirectoryError | UnidentifiedImageError | FileNotFoundError | ValueError
  | FT_Exception | OSError

datatype font = FreeType string int | TrueType string int | DefaultFont

record env =
  fsys :: "string \<Rightarrow> fs_entry"
  font_loads :: "string \<Rightarrow> bool"
  getrgb :: "string \<Rightarrow> (nat \<times> nat \<times> nat) option"
  shape_line :: "string \<Rightarrow> int \<Rightarrow> pystr \<Rightarrow> rat"
  textwrap_wrap :: "pystr \<Rightarrow> pystr list"
  getsize_A :: "font \<Rightarrow> int"
  choice :: "nat \<Rightarrow> string list \<Rightarrow> string"
  audio_file :: "string \<Rightarrow> rat option"
  chunk_past_end :: "string \<Rightarrow> rat \<Rightarrow> rat \<Rightarrow> bool"

definition path_exists :: "env \<Rightarrow> string \<Rightarrow> bool" where
  "path_exists e p \<longleftrightarrow> fsys e p \<noteq> Missing"

definition isdir :: "env \<Rightarrow> string \<Rightarrow> bool" where
  "isdir e p = (case fsys e p of Dir _ \<Rightarrow> True | _ \<Rightarrow> False)"

definition listdir :: "env \<Rightarrow> string \<Rightarrow> string list" where
  "listdir e p = (case fsys e p of Dir names \<Rightarrow> names | _ \<Rightarrow> [])"

text \<open>
  \<open>Image.open(path)\<close>: opening a directory raises \<open>IsADirectoryError\<close>, a file that
  is no image \<open>UnidentifiedImageError\<close>.
\<close>

definition image_open :: "env \<Rightarrow> string \<Rightarrow> error + string" where
  "image_open e p =
     (case fsys e p of
        ImageFile \<Rightarrow> Inr p
      | Dir _ \<Rightarrow> Inl IsADirectoryError
      | OtherFile \<Rightarrow> Inl UnidentifiedImageError
      | Missing \<Rightarrow> Inl FileNotFoundError)"

text \<open>\<open>os.path.join(a, b)\<close> for a relative \<open>b\<close>, and \<open>str(i)\<close> for \<open>i \<ge> 0\<close>.\<close>

definition os_join :: "string \<Rightarrow> string \<Rightarrow> string" where
  "os_join a b = (if a = [] \<or> last a = CHR ''/'' then a @ b else a @ ''/'' @ b)"

fun str_nat :: "nat \<Rightarrow> string" where
  "str_nat n =
     (if n < 10 then [''0123456789'' ! n]
      else str_nat (n div 10) @ [''0123456789'' ! (n mod 10)])"

declare str_nat.simps [simp del]

definition lower :: "string \<Rightarrow> string" where
  "lower s =
     map (\<lambda>c. case map_of (zip ''ABCDEFGHIJKLMNOPQRSTUVWXYZ'' ''abcdefghijklmnopqrstuvwxyz'') c of
                Some l \<Rightarrow> l
              | None \<Rightarrow> c) s"

definition endswith :: "string \<Rightarrow> string \<Rightarrow> bool" where
  "endswith s suf \<longleftrightarrow> length suf \<le> length s \<and> drop (length s - length suf) s = suf"

text \<open>\<open>sub in s\<close> for strings.\<close>

fun py_in :: "string \<Rightarrow> string \<Rightarrow> bool" where
  "py_in sub [] = (sub = [])"
| "py_in sub (c # s) = (take (length sub) (c # s) = sub \<or> py_in sub s)"

text \<open>\<open>int(x)\<close> of a float truncates towards zero; \<open>x // 2\<close> is the floor.\<close>

definition py_int :: "rat \<Rightarrow> int" where
  "py_int x = (if 0 \<le> x then \<lfloor>x\<rfloor> else \<lceil>x\<rceil>)"

section \<open>Double-precision arithmetic\<close>

text \<open>
  \<open>double x\<close> is the double nearest to the rational \<open>x\<close>, ties to the even mantissa:
  \<open>lg\<close> is the integer part of the binary logarithm, so the mantissa of 53 bits is
  the scaled value rounded to an integer by \<open>rne\<close>. The exponent range of the format
  is not modelled (no overflow, no subnormal numbers): the values rounded in this
  program lie between 0 and the canvas width. A float operation of the source is the
  exact operation followed by \<open>double\<close>; a float literal such as \<open>0.7\<close> is
  \<open>double (7 / 10)\<close>.
\<close>

function ilog2 :: "int \<Rightarrow> int" where
  "ilog2 n = (if n < 2 then 0 else 1 + ilog2 (n div 2))"
  by pat_completeness auto
termination
  by (relation "measure nat") auto

declare ilog2.simps [simp del]

definition lg :: "rat \<Rightarrow> int" where
  "lg x = (if 1 \<le> x then ilog2 \<lfloor>x\<rfloor> else - (ilog2 (\<lceil>1 / x\<rceil> - 1) + 1))"

definition rne :: "rat \<Rightarrow> int" where
  "rne z = (let f = \<lfloor>z\<rfloor>; d = z - of_int f in
            if d < 1 / 2 then f else if 1 / 2 < d then f + 1
            else if even f then f else f + 1)"

definition double :: "rat \<Rightarrow> rat" where
  "double x =
     (if x = 0 then 0
      else (let a = \<bar>x\<bar>; e = lg a - 52; m = rne (a / 2 powi e)
            in (if x < 0 then - 1 else 1) * (of_int m * 2 powi e)))"

section \<open>Rendering one slide: \<open>render_text_image\<close>\<close>

text \<open>The keyword arguments of \<open>render_text_image\<close> and \<open>generate_images\<close>.\<close>

record style =
  canvas :: "int \<times> int"
  font_size :: int
  font_color :: string
  box_color :: string
  box_alpha :: rat
  text_position :: string
  enable_shadow :: bool
  shadow_color :: string
  shadow_offset_x :: int
  shadow_offset_y :: int

text \<open>
  What a slide is drawn from: the background, the translucent box (rectangle and
  RGBA fill), the font, the wrapped lines, the vertical position of the first line,
  the ink and the shadow. The rasterisation of the glyphs (lines 187 to 221 and 247
  to 258) adds nothing the properties below speak of and is left out.
\<close>

datatype background = Solid "nat \<times> nat \<times> nat \<times> nat" | Picture string

record frame =
  fr_size :: "int \<times> int"
  fr_background :: background
  fr_box :: "rat \<times> rat \<times> rat \<times> rat"
  fr_box_rgba :: "(nat \<times> nat \<times> nat) \<times> int"
  fr_font :: font
  fr_lines :: "pystr list"
  fr_y :: rat
  fr_ink :: "nat \<times> nat \<times> nat"
  fr_shadow :: "((nat \<times> nat \<times> nat) \<times> int \<times> int) option"

text \<open>
  Lines 125 to 128: the background is opened when a path is given and exists, and
  is the solid fill otherwise.
\<close>

definition load_background :: "env \<Rightarrow> (int \<times> int) \<Rightarrow> string option \<Rightarrow> error + background" where
  "load_background e sz bg_path =
     (case bg_path of
        None \<Rightarrow> Inr (Solid (40, 40, 40, 255))
      | Some p \<Rightarrow>
          if p \<noteq> [] \<and> path_exists e p then
            (case image_open e p of Inl err \<Rightarrow> Inl err | Inr img \<Rightarrow> Inr (Picture img))
          else Inr (Solid (40, 40, 40, 255)))"

text \<open>
  Line 133: \<open>int(max(0.0, min(1.0, box_alpha)) * 255)\<close>, the product a float
  multiplication.
\<close>

definition box_alpha8 :: "rat \<Rightarrow> int" where
  "box_alpha8 a = py_int (double (max 0 (min 1 a) * 255))"

text \<open>
  The height of the text block and the vertical anchor, as each path computes them
  (lines 174 to 181, with \<open>line_spacing = 1.3\<close>, and lines 233 to 241).
\<close>

definition total_h_complex :: "nat \<Rightarrow> int \<Rightarrow> rat" where
  "total_h_complex n fsize = of_nat n * of_int fsize * (13 / 10) + 40"

definition y_complex :: "string \<Rightarrow> int \<Rightarrow> rat \<Rightarrow> rat" where
  "y_complex pos height total_h =
     (if pos = ''top'' then 60
      else if pos = ''bottom'' then of_int (max (height - py_int total_h - 60) 30)
      else max (of_int \<lfloor>(of_int height - total_h) / 2\<rfloor>) 30)"

definition total_h_simple :: "nat \<Rightarrow> int \<Rightarrow> int" where
  "total_h_simple n line_h = int n * (line_h + 10)"

definition y_simple :: "string \<Rightarrow> int \<Rightarrow> int \<Rightarrow> int" where
  "y_simple pos height total_h =
     (if pos = ''top'' then 60
      else if pos = ''bottom'' then max (height - total_h - 60) 30
      else max ((height - total_h) div 2) 30)"

definition render_text_image ::
  "nat \<Rightarrow> env \<Rightarrow> pystr \<Rightarrow> string \<Rightarrow> string option \<Rightarrow> style \<Rightarrow> (error + frame) option"
where
  "render_text_image fuel e txt font_path bg_path st =
     (case load_background e (canvas st) bg_path of
        Inl err \<Rightarrow> Some (Inl err)
      | Inr bg \<Rightarrow>
     (case getrgb e (box_color st) of
        None \<Rightarrow> Some (Inl ValueError)
      | Some box_rgb \<Rightarrow>
     (case getrgb e (shadow_color st) of
        None \<Rightarrow> Some (Inl ValueError)
      | Some shadow_rgb \<Rightarrow>
     (let box_rgba = (box_rgb, box_alpha8 (box_alpha st));
          shadow = (if enable_shadow st
                    then Some (shadow_rgb, shadow_offset_x st, shadow_offset_y st) else None);
          w = fst (canvas st); h = snd (canvas st)
      in
      if contains_complex_script txt then
        (if \<not> font_loads e font_path then Some (Inl FT_Exception)
         else
           (case getrgb e (font_color st) of
              None \<Rightarrow> Some (Inl ValueError)
            | Some font_rgb \<Rightarrow>
           (case wrap_text fuel (shape_line e font_path (font_size st)) w txt of
              None \<Rightarrow> None
            | Some lines \<Rightarrow>
                (let total_h = total_h_complex (length lines) (font_size st);
                     y = y_complex (text_position st) h total_h
                 in Some (Inr \<lparr>fr_size = canvas st, fr_background = bg,
                      fr_box = (30, y - 20, of_int (w - 30), y + total_h),
                      fr_box_rgba = box_rgba, fr_font = FreeType font_path (font_size st),
                      fr_lines = lines, fr_y = y, fr_ink = font_rgb, fr_shadow = shadow\<rparr>)))))
      else
        (let fnt = (if font_loads e font_path then TrueType font_path (font_size st)
                    else DefaultFont);
             wrapped = textwrap_wrap e txt;
             lines = (if wrapped = [] then [txt] else wrapped);
             line_h = getsize_A e fnt;
             total_h = total_h_simple (length lines) line_h;
             y = y_simple (text_position st) h total_h
         in
         (case getrgb e (font_color st) of
            None \<Rightarrow> Some (Inl ValueError)
          | Some font_rgb \<Rightarrow>
              Some (Inr \<lparr>fr_size = canvas st, fr_background = bg,
                fr_box = (30, of_int (y - 20), of_int (w - 30), of_int (y + total_h + 20)),
                fr_box_rgba = box_rgba, fr_font = fnt,
                fr_lines = lines, fr_y = of_int y, fr_ink = font_rgb,
                fr_shadow = shadow\<rparr>)))))))"

section \<open>Rendering all slides: \<open>generate_images\<close>\<close>

text \<open>
  Lines 284 to 293: when the background is a directory, the files in it whose
  lower-cased name ends in an image extension; \<open>None\<close> when there is none, or when
  the background is no directory.
\<close>

definition exts :: "string list" where
  "exts = [''.png'', ''.jpg'', ''.jpeg'', ''.webp'', ''.bmp'']"

definition find_bg_files :: "env \<Rightarrow> string option \<Rightarrow> string list option" where
  "find_bg_files e bg_img =
     (case bg_img of
        None \<Rightarrow> None
      | Some d \<Rightarrow>
          if d \<noteq> [] \<and> isdir e d then
            (let bg_files = map (os_join d)
                   (filter (\<lambda>f. list_ex (endswith (lower f)) exts) (listdir e d))
             in if bg_files = [] then None else Some bg_files)
          else None)"

text \<open>
  Lines 295 to 320. The loop saves one image per chunk; an exception of
  \<open>render_text_image\<close> ends it, with the images of the earlier chunks already on
  disk. The state is the list of files saved by this call (path and content), and
  the result is that list with the outcome: the paths, an exception, or \<open>None\<close>
  when a slide's line breaker does not return.
\<close>

fun generate_loop ::
  "nat \<Rightarrow> env \<Rightarrow> string \<Rightarrow> string \<Rightarrow> string option \<Rightarrow> string list option \<Rightarrow> style \<Rightarrow>
   nat \<Rightarrow> pystr list \<Rightarrow> (string \<times> frame) list \<Rightarrow>
   (string \<times> frame) list \<times> (error + string list) option"
where
  "generate_loop fuel e font_path image_dir bg_img bg_files st i [] saved =
     (saved, Some (Inr (map fst saved)))"
| "generate_loop fuel e font_path image_dir bg_img bg_files st i (t # chunks) saved =
     (let out = os_join image_dir (''img_'' @ str_nat i @ ''.png'');
          chosen_bg = (case bg_files of
                         Some fs \<Rightarrow> if fs \<noteq> [] then Some (choice e i fs) else bg_img
                       | None \<Rightarrow> bg_img)
      in case render_text_image fuel e t font_path chosen_bg st of
           None \<Rightarrow> (saved, None)
         | Some (Inl err) \<Rightarrow> (saved, Some (Inl err))
         | Some (Inr fr) \<Rightarrow>
             generate_loop fuel e font_path image_dir bg_img bg_files st (Suc i) chunks
               (saved @ [(out, fr)]))"

definition generate_images ::
  "nat \<Rightarrow> env \<Rightarrow> pystr list \<Rightarrow> string \<Rightarrow> string \<Rightarrow> string option \<Rightarrow> style \<Rightarrow>
   (string \<times> frame) list \<times> (error + string list) option"
where
  "generate_images fuel e chunks font_path image_dir bg_img st =
     generate_loop fuel e font_path image_dir bg_img (find_bg_files e bg_img) st 0 chunks []"

section \<open>The timeline: \<open>assemble_video\<close>\<close>

text \<open>
  An audio clip has the duration of its file and the duration the clip is set to; a
  slide is an image shown for a duration with its audio. The clips of the video
  library are kept as the expression that builds them; \<open>clip_duration\<close> is the
  library's duration of each (a concatenation lasts the sum of its parts, a
  composition as long as its longest layer).
\<close>

record audio_clip =
  au_path :: string
  au_file_duration :: rat
  au_duration :: rat

record slide =
  sl_image :: string
  sl_duration :: rat
  sl_audio :: audio_clip
  sl_size :: "int \<times> int"

datatype clip =
    Slide slide
  | ColorClip "int \<times> int" "nat \<times> nat \<times> nat" rat "string \<times> string"
  | LogoClip string rat rat "string \<times> string" "string list" rat
  | Concatenate "clip list"
  | CompositeVideoClip "clip list"
  | WithMusic clip string rat
  | FadeIn rat clip
  | FadeOut rat clip

fun clip_duration :: "clip \<Rightarrow> rat" where
  "clip_duration (Slide s) = sl_duration s"
| "clip_duration (ColorClip sz col d pos) = d"
| "clip_duration (LogoClip p w op pos margins d) = d"
| "clip_duration (Concatenate cs) = sum_list (map clip_duration cs)"
| "clip_duration (CompositeVideoClip cs) = fold max (map clip_duration cs) 0"
| "clip_duration (WithMusic c m d) = clip_duration c"
| "clip_duration (FadeIn d c) = clip_duration c"
| "clip_duration (FadeOut d c) = clip_duration c"

datatype log_line =
  Info_TTS nat | Info_rendering | Info_assembling | Warn_logo | Warn_progress | Done_saved string

text \<open>
  Lines 340 to 350, the body of the loop over the images:
  \<^verbatim>\<open>
    audio = AudioFileClip(os.path.join(audio_dir, f"chunk_{i}.mp3"))
    duration = audio.duration
    if min_duration > 0 and duration < min_duration:
        duration = min_duration
        audio = audio.set_duration(duration)
    img_clip = ImageClip(img).set_duration(duration).set_audio(audio)
    img_clip = img_clip.resize(size)
  \<close>
\<close>

definition make_clip :: "env \<Rightarrow> string \<Rightarrow> rat \<Rightarrow> int \<times> int \<Rightarrow> nat \<Rightarrow> string \<Rightarrow> error + slide" where
  "make_clip e audio_dir min_duration sz i img =
     (let p = os_join audio_dir (''chunk_'' @ str_nat i @ ''.mp3'') in
      case audio_file e p of
        None \<Rightarrow> Inl OSError
      | Some d \<Rightarrow>
          (let audio = \<lparr>au_path = p, au_file_duration = d, au_duration = d\<rparr> in
           if min_duration > 0 \<and> d < min_duration then
             Inr \<lparr>sl_image = img, sl_duration = min_duration,
                  sl_audio = audio\<lparr>au_duration := min_duration\<rparr>, sl_size = sz\<rparr>
           else
             Inr \<lparr>sl_image = img, sl_duration = d, sl_audio = audio, sl_size = sz\<rparr>))"

fun make_clips ::
  "env \<Rightarrow> string \<Rightarrow> rat \<Rightarrow> int \<times> int \<Rightarrow> nat \<Rightarrow> string list \<Rightarrow> error + slide list"
where
  "make_clips e audio_dir min_duration sz i [] = Inr []"
| "make_clips e audio_dir min_duration sz i (img # images) =
     (case make_clip e audio_dir min_duration sz i img of
        Inl err \<Rightarrow> Inl err
      | Inr c \<Rightarrow>
          (case make_clips e audio_dir min_duration sz (Suc i) images of
             Inl err \<Rightarrow> Inl err
           | Inr cs \<Rightarrow> Inr (c # cs)))"

text \<open>
  Lines 402 and 403: \<open>progress_fraction = float(idx + 1) / total_slides\<close> is a float
  division and \<open>bar_width = int(size[0] * progress_fraction)\<close> a float multiplication
  (the canvas width and the slide numbers are far below \<open>2 ^ 53\<close>, so their
  conversion to floats is exact).
\<close>

definition bar_width :: "int \<Rightarrow> nat \<Rightarrow> nat \<Rightarrow> int" where
  "bar_width width idx total_slides =
     py_int (double (of_int width * double (of_nat (idx + 1) / of_nat total_slides)))"

text \<open>
  Lines 400 to 416: each base clip under its two bars. The constructor of a colour
  clip raises \<open>ValueError\<close> on a negative width or height, which ends the loop.
\<close>

definition color_clip_raises :: "int \<times> int \<Rightarrow> bool" where
  "color_clip_raises sz \<longleftrightarrow> fst sz < 0 \<or> snd sz < 0"

fun progress_clips ::
  "int \<times> int \<Rightarrow> int \<Rightarrow> nat \<times> nat \<times> nat \<Rightarrow> nat \<Rightarrow> nat \<Rightarrow> slide list \<Rightarrow> error + clip list"
where
  "progress_clips sz progress_height bar_rgb total_slides idx [] = Inr []"
| "progress_clips sz progress_height bar_rgb total_slides idx (base_clip # clips) =
     (let dur = sl_duration base_clip;
          bar_w = bar_width (fst sz) idx total_slides
      in if color_clip_raises (fst sz, progress_height) then Inl ValueError
         else if color_clip_raises (bar_w, progress_height) then Inl ValueError
         else
           (let bar_bg = ColorClip (fst sz, progress_height) (30, 30, 30) dur
                           (''center'', ''bottom'');
                bar_fg = ColorClip (bar_w, progress_height) bar_rgb dur (''left'', ''bottom'');
                comp = CompositeVideoClip [Slide base_clip, bar_bg, bar_fg]
            in case progress_clips sz progress_height bar_rgb total_slides (Suc idx) clips of
                 Inl err \<Rightarrow> Inl err
               | Inr new_clips \<Rightarrow> Inr (comp # new_clips)))"

text \<open>
  Lines 361 to 391: the logo, where any exception is caught and printed. Of the
  exceptions the block can catch, the model has the one of opening the logo file.
\<close>

definition pos_map :: "string \<Rightarrow> string \<times> string" where
  "pos_map logo_position =
     (if logo_position = ''top-left'' then (''left'', ''top'')
      else if logo_position = ''top-right'' then (''right'', ''top'')
      else if logo_position = ''bottom-left'' then (''left'', ''bottom'')
      else if logo_position = ''bottom-right'' then (''right'', ''bottom'')
      else if logo_position = ''top-center'' then (''center'', ''top'')
      else if logo_position = ''bottom-center'' then (''center'', ''bottom'')
      else (''center'', ''top''))"

definition overlay_logo ::
  "env \<Rightarrow> int \<times> int \<Rightarrow> string option \<Rightarrow> string \<Rightarrow> rat \<Rightarrow> clip \<Rightarrow> log_line list \<times> clip"
where
  "overlay_logo e sz logo_path logo_position logo_opacity final =
     (case logo_path of
        None \<Rightarrow> ([], final)
      | Some p \<Rightarrow>
          if p \<noteq> [] \<and> path_exists e p then
            (case image_open e p of
               Inl err \<Rightarrow> ([Warn_logo], final)
             | Inr img \<Rightarrow>
                 (let margins =
                        (if py_in ''bottom'' logo_position then [''bottom''] else [''top'']) @
                        (if py_in ''left'' logo_position then [''left'']
                         else if py_in ''right'' logo_position then [''right''] else []);
                      logo_clip = LogoClip img (double (of_int (fst sz) * double (1 / 5)))
                        (max 0 (min 1 logo_opacity)) (pos_map logo_position) margins
                        (clip_duration final)
                  in ([], CompositeVideoClip [final, logo_clip])))
          else ([], final))"

text \<open>
  \<open>assemble_video\<close>: the clips, their concatenation (which raises on an empty list
  of clips), the music, the logo, the progress bars and the fades (lines 337 to
  422). Any exception in the progress branch is caught and printed, and the timeline
  is then left without bars. The result is what is printed and the clip handed to
  \<open>write_videofile\<close>.
\<close>

definition assemble_video ::
  "env \<Rightarrow> string list \<Rightarrow> string \<Rightarrow> string \<Rightarrow> string option \<Rightarrow> int \<times> int \<Rightarrow> string option \<Rightarrow>
   string \<Rightarrow> rat \<Rightarrow> rat \<Rightarrow> bool \<Rightarrow> string \<Rightarrow> int \<Rightarrow> error + (log_line list \<times> clip)"
where
  "assemble_video e images audio_dir output_path bg_music sz logo_path logo_position
     logo_opacity min_duration enable_progress_bar progress_color progress_height =
     (case make_clips e audio_dir min_duration sz 0 images of
        Inl err \<Rightarrow> Inl err
      | Inr clips \<Rightarrow>
          if clips = [] then Inl ValueError
          else
            (let durations = map sl_duration clips;
                 final0 = Concatenate (map Slide clips);
                 with_music =
                   (case bg_music of
                      None \<Rightarrow> Inr final0
                    | Some m \<Rightarrow>
                        if m \<noteq> [] \<and> path_exists e m then
                          (case audio_file e m of
                             None \<Rightarrow> Inl OSError
                           | Some d \<Rightarrow> Inr (WithMusic final0 m (clip_duration final0)))
                        else Inr final0)
             in case with_music of
                  Inl err \<Rightarrow> Inl err
                | Inr final1 \<Rightarrow>
                    (let (log1, final2) =
                           overlay_logo e sz logo_path logo_position logo_opacity final1;
                         (log2, final3) =
                           (if enable_progress_bar \<and> durations \<noteq> [] then
                              (case getrgb e progress_color of
                                 None \<Rightarrow> ([Warn_progress], final2)
                               | Some bar_rgb \<Rightarrow>
                                   (case progress_clips sz progress_height bar_rgb
                                           (length durations) 0 clips of
                                      Inl err \<Rightarrow> ([Warn_progress], final2)
                                    | Inr new_clips \<Rightarrow> ([], Concatenate new_clips)))
                            else ([], final2))
                     in Inr (log1 @ log2, FadeOut 1 (FadeIn 1 final3)))))"

text \<open>
  Line 423, \<open>final.write_videofile(...)\<close>. The library reads the audio of the
  timeline in chunks of 2000 samples at 44100 Hz, and reading a chunk of a narration
  clip that lies wholly past the end of its file raises an \<open>OSError\<close>. A clip set at
  least a tenth of a second longer than its file always has such a chunk; for a
  shorter excess it depends on where the chunks fall, the parameter
  \<open>chunk_past_end\<close>. The encoder itself is outside the model.
\<close>

fun slides_of :: "clip \<Rightarrow> slide list" where
  "slides_of (Slide s) = [s]"
| "slides_of (ColorClip sz col d pos) = []"
| "slides_of (LogoClip p w op pos margins d) = []"
| "slides_of (Concatenate cs) = concat (map slides_of cs)"
| "slides_of (CompositeVideoClip cs) = concat (map slides_of cs)"
| "slides_of (WithMusic c m d) = slides_of c"
| "slides_of (FadeIn d c) = slides_of c"
| "slides_of (FadeOut d c) = slides_of c"

definition read_past_end :: "env \<Rightarrow> audio_clip \<Rightarrow> bool" where
  "read_past_end e a \<longleftrightarrow>
     au_file_duration a + 1 / 10 \<le> au_duration a \<or>
     (au_file_duration a < au_duration a \<and>
      chunk_past_end e (au_path a) (au_file_duration a) (au_duration a))"

definition write_videofile :: "env \<Rightarrow> clip \<Rightarrow> error + unit" where
  "write_videofile e final =
     (if list_ex (\<lambda>s. read_past_end e (sl_audio s)) (slides_of final) then Inl OSError
      else Inr ())"

section \<open>The driver: \<open>main\<close>\<close>

record args =
  args_output :: string
  args_background :: "string option"
  args_music :: "string option"
  args_font :: string
  args_font_size :: int
  args_font_color :: string
  args_box_color :: string
  args_box_alpha :: rat
  args_width :: int
  args_height :: int
  args_logo :: "string option"
  args_logo_position :: string
  args_logo_opacity :: rat
  args_text_position :: string
  args_style :: string
  args_enable_shadow :: bool
  args_shadow_color :: string
  args_shadow_offset_x :: int
  args_shadow_offset_y :: int
  args_min_duration :: rat
  args_enable_progress_bar :: bool
  args_progress_color :: string
  args_progress_height :: int

text \<open>
  Lines 434 to 451: the four style fields start from the arguments and a preset
  overwrites them; the result, with the arguments passed on unchanged, is what
  \<open>generate_images\<close> is called with.
\<close>

definition resolve_style :: "args \<Rightarrow> style" where
  "resolve_style a =
     (let base = \<lparr>canvas = (args_width a, args_height a), font_size = args_font_size a,
                  font_color = args_font_color a, box_color = args_box_color a,
                  box_alpha = args_box_alpha a, text_position = args_text_position a,
                  enable_shadow = args_enable_shadow a, shadow_color = args_shadow_color a,
                  shadow_offset_x = args_shadow_offset_x a,
                  shadow_offset_y = args_shadow_offset_y a\<rparr>
      in if args_style a = ''caption'' then
           base\<lparr>text_position := ''top'', box_color := ''#000000'',
                box_alpha := double (7 / 10), font_color := ''#FFFF00''\<rparr>
         else if args_style a = ''subtitle'' then
           base\<lparr>text_position := ''bottom'', box_color := ''#000000'',
                box_alpha := double (7 / 10), font_color := ''#FFFFFF''\<rparr>
         else base)"

text \<open>
  \<open>main\<close> from the chunks read from the input (the narration is synthesised by an
  outside service into \<open>audio_chunks\<close>): what is printed, and the outcome. The last
  line of \<open>assemble_video\<close>, the writing of the video, is the last step here.
\<close>

definition main :: "nat \<Rightarrow> env \<Rightarrow> args \<Rightarrow> pystr list \<Rightarrow> log_line list \<times> (error + clip) option" where
  "main fuel e a chunks =
     (let sz = (args_width a, args_height a);
          log0 = [Info_TTS (length chunks), Info_rendering]
      in case snd (generate_images fuel e chunks (args_font a) ''images'' (args_background a)
                     (resolve_style a)) of
           None \<Rightarrow> (log0, None)
         | Some (Inl err) \<Rightarrow> (log0, Some (Inl err))
         | Some (Inr images) \<Rightarrow>
             (case assemble_video e images ''audio_chunks'' (args_output a) (args_music a) sz
                     (args_logo a) (args_logo_position a) (args_logo_opacity a)
                     (args_min_duration a) (args_enable_progress_bar a)
                     (args_progress_color a) (args_progress_height a) of
                Inl err \<Rightarrow> (log0 @ [Info_assembling], Some (Inl err))
              | Inr (warnings, final) \<Rightarrow>
                  (case write_videofile e final of
                     Inl err \<Rightarrow> (log0 @ [Info_assembling] @ warnings, Some (Inl err))
                   | Inr u \<Rightarrow>
                       (log0 @ [Info_assembling] @ warnings @ [Done_saved (args_output a)],
                        Some (Inr final)))))"

section \<open>A sample world\<close>

text \<open>
  A concrete world, style and argument list for the runs below: a directory
  \<open>backgrounds\<close> that holds no image, one image file, one font file that loads, three
  colours, a shaper of 36 pixels per code point, short passages that wrap to
  themselves, and two narration files of 1.5 and 2 seconds. The style and the
  arguments are the defaults of \<open>render_text_image\<close> and of \<open>parse_args\<close> (the
  default box alpha is the float \<open>0.6\<close>).
\<close>

definition sample_env :: env where
  "sample_env =
     \<lparr>fsys = (\<lambda>p. if p = ''backgrounds'' then Dir [''notes.txt'']
                  else if p = ''bg.png'' then ImageFile else Missing),
      font_loads = (\<lambda>p. p = ''font.ttf''),
      getrgb = (\<lambda>c. if c = ''#FFFFFF'' then Some (255, 255, 255)
                    else if c = ''#000000'' then Some (0, 0, 0)
                    else if c = ''#FFFF00'' then Some (255, 255, 0) else None),
      shape_line = (\<lambda>font_path size_px t. fixed_advance 36 t),
      textwrap_wrap = (\<lambda>t. if str_split t = [] then [] else [t]),
      getsize_A = (\<lambda>f. 11),
      choice = (\<lambda>i fs. case fs of [] \<Rightarrow> [] | f # _ \<Rightarrow> f),
      audio_file = (\<lambda>p. if p = ''audio_chunks/chunk_0.mp3'' then Some (3 / 2)
                        else if p = ''audio_chunks/chunk_1.mp3'' then Some 2 else None),
      chunk_past_end = (\<lambda>p d d'. False)\<rparr>"

definition default_style :: style where
  "default_style =
     \<lparr>canvas = (720, 1280), font_size = 60, font_color = ''#FFFFFF'', box_color = ''#000000'',
      box_alpha = double (3 / 5), text_position = ''center'', enable_shadow = False,
      shadow_color = ''#000000'', shadow_offset_x = 2, shadow_offset_y = 2\<rparr>"

definition default_args :: args where
  "default_args =
     \<lparr>args_output = ''review_output.mp4'', args_background = None, args_music = None,
      args_font = ''font.ttf'', args_font_size = 60, args_font_color = ''#FFFFFF'',
      args_box_color = ''#000000'', args_box_alpha = double (3 / 5), args_width = 720,
      args_height = 1280, args_logo = None, args_logo_position = ''top-center'',
      args_logo_opacity = 1, args_text_position = ''center'', args_style = ''default'',
      args_enable_shadow = False, args_shadow_color = ''#000000'', args_shadow_offset_x = 2,
      args_shadow_offset_y = 2, args_min_duration = 0, args_enable_progress_bar = False,
      args_progress_color = ''#FFFFFF'', args_progress_height = 6\<rparr>"

section \<open>Properties of the line breaker\<close>

lemma split_from_nonempty: "[] \<notin> set (split_from s word)"
  by (induction s arbitrary: word) auto

lemma str_split_nonempty: "[] \<notin> set (str_split s)"
  by (simp add: str_split_def split_from_nonempty)

text \<open>
  With an empty current line and a first word that is too wide on its own, one loop
  body appends the empty current line and leaves the words as they were: the state
  repeats (but for the growing list of lines), whatever the number of iterations.
\<close>

lemma wrap_loop_stuck:
  "max_width < shape w \<Longrightarrow> wrap_loop fuel shape max_width (w # ws) [] lines = None"
  by (induction fuel arbitrary: lines) auto

text \<open>Running longer never changes a result already returned.\<close>

lemma wrap_loop_mono:
  "wrap_loop fuel shape mw ws cur lines = Some r \<Longrightarrow>
   wrap_loop (fuel + k) shape mw ws cur lines = Some r"
proof (induction fuel shape mw ws cur lines rule: wrap_loop.induct)
  case (1 fuel shape mw cur lines)
  then show ?case by simp
next
  case (2 shape mw w ws cur lines)
  then show ?case by simp
next
  case (3 fuel shape mw w ws cur lines)
  then show ?case by (auto simp: Let_def split: if_splits)
qed


lemma join_sp_snoc: "g \<noteq> [] \<Longrightarrow> join_sp (g @ [w]) = join_sp g @ [32] @ w"
  by (induction g rule: join_sp.induct) auto

lemma join_sp_empty_iff: "[] \<notin> set g \<Longrightarrow> join_sp g = [] \<longleftrightarrow> g = []"
  by (induction g rule: join_sp.induct) auto

lemma wrap_loop_fits:
  "wrap_loop fuel shape mw ws cur lines = Some r \<Longrightarrow>
   cur = [] \<or> shape cur \<le> mw \<Longrightarrow> list_all (\<lambda>l. shape l \<le> mw) lines \<Longrightarrow>
   list_all (\<lambda>l. shape l \<le> mw) r"
proof (induction fuel arbitrary: ws cur lines)
  case 0
  then show ?case by (cases ws) (auto split: if_splits)
next
  case (Suc fuel)
  show ?case
  proof (cases ws)
    case Nil
    with Suc.prems show ?thesis by (auto split: if_splits)
  next
    case (Cons w ws')
    let ?trial = "if cur \<noteq> [] then cur @ [32] @ w else w"
    show ?thesis
    proof (cases "shape ?trial \<le> mw")
      case True
      with Suc.prems(1) Cons have "wrap_loop fuel shape mw ws' ?trial lines = Some r"
        by (simp add: Let_def)
      from Suc.IH[OF this] True Suc.prems(3) show ?thesis by simp
    next
      case False
      with Suc.prems(1) Cons
      have run: "wrap_loop fuel shape mw (w # ws') [] (lines @ [cur]) = Some r"
        by (simp add: Let_def)
      show ?thesis
      proof (cases "cur = []")
        case True
        with False have "mw < shape w" by simp
        then have "wrap_loop fuel shape mw (w # ws') [] (lines @ [cur]) = None"
          by (rule wrap_loop_stuck)
        with run show ?thesis by simp
      next
        case False
        with Suc.prems(2,3) have "list_all (\<lambda>l. shape l \<le> mw) (lines @ [cur])" by simp
        from Suc.IH[OF run _ this] show ?thesis by simp
      qed
    qed
  qed
qed

lemma wrap_loop_groups:
  "wrap_loop fuel shape mw ws (join_sp g) lines = Some r \<Longrightarrow>
   [] \<notin> set ws \<Longrightarrow> [] \<notin> set g \<Longrightarrow>
   \<exists>gs. [] \<notin> set gs \<and> concat gs = g @ ws \<and> r = lines @ map join_sp gs"
proof (induction fuel arbitrary: ws g lines)
  case 0
  show ?case
  proof (cases ws)
    case Nil
    with 0 show ?thesis
      by (cases "g = []") (auto simp: join_sp_empty_iff intro: exI[of _ "[g]"] exI[of _ "[]"])
  next
    case (Cons w ws')
    with 0 show ?thesis by simp
  qed
next
  case (Suc fuel)
  show ?case
  proof (cases ws)
    case Nil
    with Suc.prems show ?thesis
      by (cases "g = []") (auto simp: join_sp_empty_iff intro: exI[of _ "[g]"] exI[of _ "[]"])
  next
    case (Cons w ws')
    let ?trial = "if join_sp g \<noteq> [] then join_sp g @ [32] @ w else w"
    have trial: "?trial = join_sp (g @ [w])"
      using Suc.prems(3) by (cases "g = []") (auto simp: join_sp_empty_iff join_sp_snoc)
    show ?thesis
    proof (cases "shape ?trial \<le> mw")
      case True
      with Suc.prems(1) Cons trial
      have "wrap_loop fuel shape mw ws' (join_sp (g @ [w])) lines = Some r"
        by (simp add: Let_def)
      from Suc.IH[OF this] Suc.prems(2,3) Cons
      obtain gs where "[] \<notin> set gs" "concat gs = (g @ [w]) @ ws'" "r = lines @ map join_sp gs"
        by auto
      with Cons show ?thesis by auto
    next
      case False
      with Suc.prems(1) Cons
      have run: "wrap_loop fuel shape mw (w # ws') (join_sp []) (lines @ [join_sp g]) = Some r"
        by (simp add: Let_def)
      show ?thesis
      proof (cases "g = []")
        case True
        with False have "mw < shape w" by simp
        then have "wrap_loop fuel shape mw (w # ws') [] (lines @ [join_sp g]) = None"
          by (rule wrap_loop_stuck)
        with run show ?thesis by simp
      next
        case gne: False
        from Suc.IH[OF run] Suc.prems(2) Cons
        obtain gs where gs: "[] \<notin> set gs" "concat gs = [] @ (w # ws')"
          "r = (lines @ [join_sp g]) @ map join_sp gs"
          by auto
        have "[] \<notin> set (g # gs) \<and> concat (g # gs) = g @ ws \<and> r = lines @ map join_sp (g # gs)"
          using gs gne Cons by auto
        then show ?thesis by blast
      qed
    qed
  qed
qed

lemma wrap_loop_returns:
  "\<forall>w \<in> set ws. shape w \<le> mw \<Longrightarrow> 2 * length ws \<le> fuel \<Longrightarrow>
   \<exists>r. wrap_loop fuel shape mw ws cur lines = Some r"
proof (induction ws arbitrary: fuel cur lines)
  case Nil
  then show ?case by simp
next
  case (Cons w ws)
  then obtain f where f: "fuel = Suc (Suc f)" "2 * length ws \<le> f"
    by (cases fuel; cases "fuel - 1") auto
  let ?trial = "if cur \<noteq> [] then cur @ [32] @ w else w"
  from Cons.prems have fits: "shape w \<le> mw" and rest: "\<forall>w \<in> set ws. shape w \<le> mw" by auto
  show ?case
  proof (cases "shape ?trial \<le> mw")
    case True
    from Cons.IH[OF rest, of "Suc f" ?trial lines] f True show ?thesis
      by (simp add: Let_def)
  next
    case False
    from Cons.IH[OF rest f(2), of w "lines @ [cur]"] f False fits show ?thesis
      by (auto simp add: Let_def)
  qed
qed

text \<open>One loop body, for running the breaker on a concrete passage.\<close>

lemma wrap_loop_unfold:
  "0 < fuel \<Longrightarrow> wrap_loop fuel shape max_width (w # ws) current lines =
     (let trial = (if current \<noteq> [] then current @ [32] @ w else w) in
      if shape trial \<le> max_width then wrap_loop (fuel - 1) shape max_width ws trial lines
      else wrap_loop (fuel - 1) shape max_width (w # ws) [] (lines @ [current]))"
  by (cases fuel) (simp_all add: Let_def)

section \<open>Claims about the line breaker\<close>

text \<open>
  Claim C7. Every line the complex-path line breaker emits has a shaped advance of
  at most the usable width, the canvas width minus the 100 pixels of horizontal
  margin, and the bound comes from where the lines are broken, never from cutting
  text: the lines are the passage's words, whole and in order, grouped and joined by
  single spaces. (The claim allows a lone word wider than the usable width to stand
  on a line of its own; the breaker never emits such a line, since the loop does not
  return on such a word, so every emitted line is within the bound.)
\<close>

theorem complex_lines_fit:
  assumes "wrap_text fuel shape width t = Some ls"
  shows "list_all (\<lambda>l. shape l \<le> of_int (width - 100)) ls \<and>
         (\<exists>gs. [] \<notin> set gs \<and> concat gs = str_split t \<and> ls = map join_sp gs)"
proof -
  from assms have run: "wrap_loop fuel shape (of_int (width - 100)) (str_split t) [] [] = Some ls"
    by (simp add: wrap_text_def)
  have fits: "list_all (\<lambda>l. shape l \<le> of_int (width - 100)) ls"
    by (rule wrap_loop_fits[OF run]) simp_all
  from run have "wrap_loop fuel shape (of_int (width - 100)) (str_split t) (join_sp []) [] = Some ls"
    by simp
  from wrap_loop_groups[OF this str_split_nonempty]
  obtain gs where "[] \<notin> set gs" "concat gs = str_split t" "ls = map join_sp gs"
    by auto
  with fits show ?thesis by blast
qed

theorem complex_lines_fit_witness:
  "wrap_text 10 (fixed_advance 36) 720
     [2309, 2310, 2311, 2312, 2313, 2314, 2315, 2316, 32,
      2317, 2318, 2319, 2320, 2321, 2322, 2323, 2324, 10, 2325, 2326]
   = Some [[2309, 2310, 2311, 2312, 2313, 2314, 2315, 2316, 32,
            2317, 2318, 2319, 2320, 2321, 2322, 2323, 2324], [2325, 2326]] \<and>
   list_all (\<lambda>l. fixed_advance 36 l \<le> of_int (720 - 100))
     [[2309, 2310, 2311, 2312, 2313, 2314, 2315, 2316, 32,
       2317, 2318, 2319, 2320, 2321, 2322, 2323, 2324], [2325, 2326]] \<and>
   (\<exists>gs. [] \<notin> set gs \<and>
      concat gs = str_split [2309, 2310, 2311, 2312, 2313, 2314, 2315, 2316, 32,
      2317, 2318, 2319, 2320, 2321, 2322, 2323, 2324, 10, 2325, 2326] \<and>
      [[2309, 2310, 2311, 2312, 2313, 2314, 2315, 2316, 32,
        2317, 2318, 2319, 2320, 2321, 2322, 2323, 2324], [2325, 2326]] = map join_sp gs)"
proof -
  have run: "wrap_text 10 (fixed_advance 36) 720
     [2309, 2310, 2311, 2312, 2313, 2314, 2315, 2316, 32,
      2317, 2318, 2319, 2320, 2321, 2322, 2323, 2324, 10, 2325, 2326]
   = Some [[2309, 2310, 2311, 2312, 2313, 2314, 2315, 2316, 32,
            2317, 2318, 2319, 2320, 2321, 2322, 2323, 2324], [2325, 2326]]"
    by (simp add: wrap_text_def str_split_def isspace_def wrap_loop_unfold fixed_advance_def)
  from complex_lines_fit[OF run] run show ?thesis by blast
qed

text \<open>
  The breaker does return when every word fits on a line of its own: twice the
  number of words is enough loop bodies.
\<close>

lemma wrap_text_returns:
  assumes "list_all (\<lambda>w. shape w \<le> of_int (width - 100)) (str_split t)"
  shows "\<exists>ls. wrap_text (2 * length (str_split t)) shape width t = Some ls"
  using assms wrap_loop_returns[of "str_split t" shape "of_int (width - 100)" "2 * length (str_split t)" "[]" "[]"]
  by (simp add: wrap_text_def list_all_iff)

lemma wrap_text_returns_witness:
  "\<exists>ls. wrap_text
          (2 * length (str_split [2309, 2310, 2311, 2312, 2313, 2314, 2315, 2316, 32,
             2317, 2318, 2319, 2320, 2321, 2322, 2323, 2324, 10, 2325, 2326]))
          (fixed_advance 36) 720
          [2309, 2310, 2311, 2312, 2313, 2314, 2315, 2316, 32,
           2317, 2318, 2319, 2320, 2321, 2322, 2323, 2324, 10, 2325, 2326] = Some ls"
  using wrap_text_returns[of "fixed_advance 36" 720
      "[2309, 2310, 2311, 2312, 2313, 2314, 2315, 2316, 32,
        2317, 2318, 2319, 2320, 2321, 2322, 2323, 2324, 10, 2325, 2326]"]
  by (simp add: str_split_def isspace_def fixed_advance_def)

text \<open>
  Claim C1. The claim says that the loop terminates and that a word wider than the
  usable width is put on a line of its own. The code does neither: when the first
  word left is wider than the usable width and the current line is empty, the loop
  body appends the empty current line and keeps the word, so the loop never returns,
  whatever number of iterations it is given.
\<close>

theorem wide_word_never_returns:
  assumes "str_split t = w # ws" and "of_int (width - 100) < shape w"
  shows "wrap_text fuel shape width t = None"
proof -
  from assms(2) have "wrap_loop fuel shape (of_int (width - 100)) (w # ws) [] [] = None"
    by (rule wrap_loop_stuck)
  with assms(1) show ?thesis by (simp add: wrap_text_def)
qed

theorem wide_word_never_returns_witness:
  "\<forall>fuel. wrap_text fuel (fixed_advance 36) 720
     [2309, 2310, 2311, 2312, 2313, 2314, 2315, 2316, 2317,
      2318, 2319, 2320, 2321, 2322, 2323, 2324, 2325, 2326] = None"
proof
  fix fuel
  have words: "str_split [2309, 2310, 2311, 2312, 2313, 2314, 2315, 2316, 2317,
      2318, 2319, 2320, 2321, 2322, 2323, 2324, 2325, 2326] =
      [2309, 2310, 2311, 2312, 2313, 2314, 2315, 2316, 2317,
      2318, 2319, 2320, 2321, 2322, 2323, 2324, 2325, 2326] # []"
    by (simp add: str_split_def isspace_def)
  have wide: "of_int (720 - 100) < fixed_advance 36 [2309, 2310, 2311, 2312, 2313, 2314,
      2315, 2316, 2317, 2318, 2319, 2320, 2321, 2322, 2323, 2324, 2325, 2326]"
    by (simp add: fixed_advance_def)
  show "wrap_text fuel (fixed_advance 36) 720
     [2309, 2310, 2311, 2312, 2313, 2314, 2315, 2316, 2317,
      2318, 2319, 2320, 2321, 2322, 2323, 2324, 2325, 2326] = None"
    by (rule wide_word_never_returns[where shape = "fixed_advance 36", OF words wide])
qed

section \<open>Properties of the rounding to doubles\<close>

text \<open>
  The binary logarithm brackets its argument; rounding keeps the order, keeps the sign
  of a positive number, and leaves the integers below \<open>2 ^ 53\<close> as they are.
\<close>

lemma ilog2_nonneg: "0 \<le> ilog2 n"
  by (induction n rule: ilog2.induct) (subst ilog2.simps, simp)

lemma ilog2_bounds: "1 \<le> n \<Longrightarrow> 2 ^ nat (ilog2 n) \<le> n \<and> n < 2 ^ nat (ilog2 n + 1)"
proof (induction n rule: ilog2.induct)
  case (1 n)
  show ?case
  proof (cases "n < 2")
    case True
    with "1.prems" have "n = 1" by simp
    then show ?thesis by (simp add: ilog2.simps)
  next
    case False
    then have h: "1 \<le> n div 2" by simp
    from "1.IH"[OF False h] have lo: "2 ^ nat (ilog2 (n div 2)) \<le> n div 2"
      and hi: "n div 2 < 2 ^ nat (ilog2 (n div 2) + 1)" by simp_all
    have eq: "ilog2 n = 1 + ilog2 (n div 2)"
      using False by (subst ilog2.simps) simp
    have n1: "nat (1 + ilog2 (n div 2)) = Suc (nat (ilog2 (n div 2)))"
      using ilog2_nonneg[of "n div 2"] by simp
    have n2: "nat (1 + ilog2 (n div 2) + 1) = Suc (Suc (nat (ilog2 (n div 2))))"
      using ilog2_nonneg[of "n div 2"] by simp
    have n3: "nat (ilog2 (n div 2) + 1) = Suc (nat (ilog2 (n div 2)))"
      using ilog2_nonneg[of "n div 2"] by simp
    from lo have "2 * 2 ^ nat (ilog2 (n div 2)) \<le> n" by simp
    moreover from hi have "n < 2 * 2 ^ Suc (nat (ilog2 (n div 2)))"
      unfolding n3 by simp
    ultimately show ?thesis unfolding eq n1 n2 by simp
  qed
qed

lemma ilog2_powi: "1 \<le> n \<Longrightarrow> 2 powi (ilog2 n) \<le> (of_int n :: rat) \<and> (of_int n :: rat) < 2 powi (ilog2 n + 1)"
proof -
  assume n: "1 \<le> n"
  from ilog2_bounds[OF n] have lo: "2 ^ nat (ilog2 n) \<le> n" and hi: "n < 2 ^ nat (ilog2 n + 1)"
    by simp_all
  from lo have "(of_int (2 ^ nat (ilog2 n)) :: rat) \<le> of_int n" by (simp only: of_int_le_iff)
  moreover from hi have "(of_int n :: rat) < of_int (2 ^ nat (ilog2 n + 1))" by (simp only: of_int_less_iff)
  ultimately show ?thesis
    using ilog2_nonneg[of n] by (simp add: power_int_def)
qed

lemma lg_bounds:
  assumes "0 < x"
  shows "2 powi (lg x) \<le> x \<and> x < 2 powi (lg x + 1)"
proof (cases "1 \<le> x")
  case True
  then have f: "1 \<le> \<lfloor>x\<rfloor>" by simp
  from ilog2_powi[OF f] have lo: "2 powi (ilog2 \<lfloor>x\<rfloor>) \<le> (of_int \<lfloor>x\<rfloor> :: rat)"
    and hi: "(of_int \<lfloor>x\<rfloor> :: rat) < 2 powi (ilog2 \<lfloor>x\<rfloor> + 1)" by simp_all
  have "of_int \<lfloor>x\<rfloor> \<le> x" by simp
  with lo have a: "2 powi (ilog2 \<lfloor>x\<rfloor>) \<le> x" by linarith
  have "(2::rat) powi (ilog2 \<lfloor>x\<rfloor> + 1) = of_int (2 ^ nat (ilog2 \<lfloor>x\<rfloor> + 1))"
    using ilog2_nonneg[of "\<lfloor>x\<rfloor>"] by (simp add: power_int_def)
  with hi have "\<lfloor>x\<rfloor> < 2 ^ nat (ilog2 \<lfloor>x\<rfloor> + 1)"
    by (simp only: of_int_less_iff)
  then have "\<lfloor>x\<rfloor> + 1 \<le> 2 ^ nat (ilog2 \<lfloor>x\<rfloor> + 1)" by simp
  then have "(of_int (\<lfloor>x\<rfloor> + 1) :: rat) \<le> of_int (2 ^ nat (ilog2 \<lfloor>x\<rfloor> + 1))"
    by (simp only: of_int_le_iff)
  moreover have "x < of_int (\<lfloor>x\<rfloor> + 1)" by linarith
  ultimately have "x < of_int (2 ^ nat (ilog2 \<lfloor>x\<rfloor> + 1))" by linarith
  then have b: "x < 2 powi (ilog2 \<lfloor>x\<rfloor> + 1)"
    using ilog2_nonneg[of "\<lfloor>x\<rfloor>"] by (simp add: power_int_def)
  from a b True show ?thesis by (simp add: lg_def)
next
  case False
  define y where "y = 1 / x"
  define c where "c = \<lceil>y\<rceil>"
  define d where "d = c - 1"
  define k where "k = ilog2 d"
  from False assms have y1: "1 < y" by (simp add: y_def)
  then have c2: "2 \<le> c" unfolding c_def by linarith
  then have c1: "1 \<le> d" by (simp add: d_def)
  have k0: "0 \<le> k" unfolding k_def by (rule ilog2_nonneg)
  from ilog2_bounds[OF c1] have lo: "2 ^ nat k \<le> d" and hi: "d < 2 ^ nat (k + 1)"
    by (simp_all add: k_def)
  have "of_int d < y" unfolding c_def d_def by linarith
  moreover from lo have "(2 ^ nat k :: rat) \<le> of_int d" by simp
  ultimately have ylo: "2 ^ nat k < y" by linarith
  from hi have "c \<le> 2 ^ nat (k + 1)" by (simp add: d_def)
  then have "(of_int c :: rat) \<le> 2 ^ nat (k + 1)" by simp
  moreover have "y \<le> of_int c" unfolding c_def by linarith
  ultimately have yhi: "y \<le> 2 ^ nat (k + 1)" by linarith
  have xy: "x = 1 / y" using assms by (simp add: y_def)
  have p1: "(2::rat) powi (- (k + 1)) = 1 / 2 ^ nat (k + 1)"
    using k0 by (simp add: power_int_def field_simps)
  have p2: "(2::rat) powi (- (k + 1) + 1) = 1 / 2 ^ nat k"
    using k0 by (simp add: power_int_def field_simps)
  from yhi y1 have a: "1 / 2 ^ nat (k + 1) \<le> x"
    unfolding xy by (simp add: field_simps)
  from ylo y1 have b: "x < 1 / 2 ^ nat k"
    unfolding xy by (simp add: field_simps)
  have "lg x = - (k + 1)"
    using False by (simp add: lg_def k_def d_def c_def y_def)
  with a b p1 p2 show ?thesis by simp
qed

lemma lg_unique:
  assumes "0 < x" and "2 powi k \<le> x" and "x < 2 powi (k + 1)"
  shows "lg x = k"
proof (rule ccontr)
  assume ne: "lg x \<noteq> k"
  from lg_bounds[OF assms(1)] have lo: "2 powi (lg x) \<le> x" and hi: "x < 2 powi (lg x + 1)"
    by simp_all
  show False
  proof (cases "lg x < k")
    case True
    then have "lg x + 1 \<le> k" by simp
    then have "(2::rat) powi (lg x + 1) \<le> 2 powi k"
      by (intro power_int_increasing) simp_all
    with hi assms(2) show False by linarith
  next
    case False
    with ne have "k + 1 \<le> lg x" by simp
    then have "(2::rat) powi (k + 1) \<le> 2 powi (lg x)"
      by (intro power_int_increasing) simp_all
    with lo assms(3) show False by linarith
  qed
qed

lemma lg_mono:
  assumes "0 < x" and "x \<le> y"
  shows "lg x \<le> lg y"
proof (rule ccontr)
  assume "\<not> lg x \<le> lg y"
  then have "lg y + 1 \<le> lg x" by simp
  then have "(2::rat) powi (lg y + 1) \<le> 2 powi (lg x)"
    by (intro power_int_increasing) simp_all
  moreover from assms have "0 < y" by simp
  from lg_bounds[OF this] have "y < 2 powi (lg y + 1)" by simp
  moreover from lg_bounds[OF assms(1)] have "2 powi (lg x) \<le> x" by simp
  ultimately show False using assms(2) by linarith
qed

lemma rne_of_int: "rne (of_int k) = k"
  by (simp add: rne_def)

lemma rne_range: "\<lfloor>z\<rfloor> \<le> rne z \<and> rne z \<le> \<lfloor>z\<rfloor> + 1"
  by (simp add: rne_def Let_def)

lemma rne_mono:
  assumes "z \<le> z'"
  shows "rne z \<le> rne z'"
proof (cases "\<lfloor>z\<rfloor> = \<lfloor>z'\<rfloor>")
  case True
  from assms have "z - of_int \<lfloor>z\<rfloor> \<le> z' - of_int \<lfloor>z\<rfloor>" by simp
  then show ?thesis
    unfolding rne_def Let_def True[symmetric] by auto
next
  case False
  from assms have "\<lfloor>z\<rfloor> \<le> \<lfloor>z'\<rfloor>" by (rule floor_mono)
  with False have "\<lfloor>z\<rfloor> + 1 \<le> \<lfloor>z'\<rfloor>" by simp
  with rne_range[of z] rne_range[of z'] show ?thesis by linarith
qed

lemma double_pos_unfold:
  "0 < x \<Longrightarrow> double x = of_int (rne (x / 2 powi (lg x - 52))) * 2 powi (lg x - 52)"
  by (simp add: double_def Let_def)

lemma scaled_bounds:
  assumes "0 < x"
  shows "2 ^ 52 \<le> x / 2 powi (lg x - 52) \<and> x / 2 powi (lg x - 52) < 2 ^ 53"
proof -
  have p: "(0::rat) < 2 powi (lg x - 52)" by simp
  have a: "(2::rat) powi (lg x) = 2 ^ 52 * 2 powi (lg x - 52)"
    using power_int_add[of "2::rat" 52 "lg x - 52"] by simp
  have b: "(2::rat) powi (lg x + 1) = 2 ^ 53 * 2 powi (lg x - 52)"
    using power_int_add[of "2::rat" 53 "lg x - 52"] by (simp add: add.commute)
  from lg_bounds[OF assms] have "2 ^ 52 * 2 powi (lg x - 52) \<le> x"
    and "x < 2 ^ 53 * 2 powi (lg x - 52)"
    unfolding a b by simp_all
  with p show ?thesis
    by (simp add: pos_le_divide_eq pos_divide_less_eq)
qed

lemma mantissa_bounds:
  assumes "0 < x"
  shows "2 ^ 52 \<le> rne (x / 2 powi (lg x - 52)) \<and> rne (x / 2 powi (lg x - 52)) \<le> 2 ^ 53"
proof -
  from scaled_bounds[OF assms]
  have lo: "of_int (2 ^ 52) \<le> x / 2 powi (lg x - 52)"
    and hi: "x / 2 powi (lg x - 52) \<le> of_int (2 ^ 53)" by simp_all
  from rne_mono[OF lo] rne_mono[OF hi] show ?thesis
    by (simp only: rne_of_int)
qed

lemma double_bounds:
  assumes "0 < x"
  shows "2 powi (lg x) \<le> double x \<and> double x \<le> 2 powi (lg x + 1)"
proof -
  let ?m = "rne (x / 2 powi (lg x - 52))"
  have p: "(0::rat) < 2 powi (lg x - 52)" by simp
  have a: "(2::rat) powi (lg x) = 2 ^ 52 * 2 powi (lg x - 52)"
    using power_int_add[of "2::rat" 52 "lg x - 52"] by simp
  have b: "(2::rat) powi (lg x + 1) = 2 ^ 53 * 2 powi (lg x - 52)"
    using power_int_add[of "2::rat" 53 "lg x - 52"] by (simp add: add.commute)
  from mantissa_bounds[OF assms] have m1: "(2 ^ 52 :: rat) \<le> of_int ?m"
    and m2: "(of_int ?m :: rat) \<le> 2 ^ 53"
    by simp_all
  from p have p0: "(0::rat) \<le> 2 powi (lg x - 52)" by simp
  from mult_right_mono[OF m1 p0] mult_right_mono[OF m2 p0]
  have "(2 ^ 52 :: rat) * 2 powi (lg x - 52) \<le> of_int ?m * 2 powi (lg x - 52)"
    and "(of_int ?m :: rat) * 2 powi (lg x - 52) \<le> 2 ^ 53 * 2 powi (lg x - 52)"
    by simp_all
  then show ?thesis
    unfolding a b double_pos_unfold[OF assms] by simp
qed

lemma double_0: "double 0 = 0"
  by (simp add: double_def)

lemma double_nonneg: "0 \<le> x \<Longrightarrow> 0 \<le> double x"
proof (cases "x = 0")
  case True
  then show ?thesis by (simp add: double_0)
next
  case False
  assume "0 \<le> x"
  with False have x: "0 < x" by simp
  have "(0::rat) < 2 powi (lg x)" by simp
  with double_bounds[OF x] show ?thesis by linarith
qed

lemma double_mono:
  assumes "0 \<le> x" and "x \<le> y"
  shows "double x \<le> double y"
proof (cases "x = 0")
  case True
  with assms double_nonneg[of y] show ?thesis by (simp add: double_0)
next
  case False
  with assms have x: "0 < x" and y: "0 < y" by simp_all
  show ?thesis
  proof (cases "lg x = lg y")
    case True
    have p: "(0::rat) < 2 powi (lg y - 52)" by simp
    from assms(2) p have "x / 2 powi (lg y - 52) \<le> y / 2 powi (lg y - 52)"
      by (simp add: divide_right_mono)
    from rne_mono[OF this]
    have "(of_int (rne (x / 2 powi (lg y - 52))) :: rat) \<le> of_int (rne (y / 2 powi (lg y - 52)))"
      by simp
    with p show ?thesis
      unfolding double_pos_unfold[OF x] double_pos_unfold[OF y] True
      by (simp add: mult_right_mono)
  next
    case False
    with lg_mono[OF x assms(2)] have "lg x + 1 \<le> lg y" by simp
    then have "(2::rat) powi (lg x + 1) \<le> 2 powi (lg y)"
      by (intro power_int_increasing) simp_all
    with double_bounds[OF x] double_bounds[OF y] show ?thesis by linarith
  qed
qed

lemma double_of_int:
  assumes "0 \<le> w" and "w < 2 ^ 53"
  shows "double (of_int w) = of_int w"
proof (cases "w = 0")
  case True
  then show ?thesis by (simp add: double_0)
next
  case False
  with assms have w1: "1 \<le> w" by simp
  define x :: rat where "x = of_int w"
  define k where "k = lg x"
  have x: "0 < x" using w1 by (simp add: x_def)
  from lg_bounds[OF x] have lo: "2 powi k \<le> x" and hi: "x < 2 powi (k + 1)"
    by (simp_all add: k_def)
  have "lg 1 = 0" by (rule lg_unique) simp_all
  moreover have "lg 1 \<le> lg x" by (rule lg_mono) (use w1 in \<open>simp_all add: x_def\<close>)
  ultimately have k0: "0 \<le> k" by (simp add: k_def)
  have k52: "k \<le> 52"
  proof (rule ccontr)
    assume "\<not> k \<le> 52"
    then have "53 \<le> k" by simp
    then have "(2::rat) powi 53 \<le> 2 powi k" by (intro power_int_increasing) simp_all
    moreover from assms(2) have "x < 2 ^ 53" by (simp add: x_def)
    ultimately show False using lo by simp
  qed
  have inv: "(2::rat) powi (52 - k) * 2 powi (k - 52) = 1"
    using power_int_add[of "2::rat" "52 - k" "k - 52"] by simp
  have pw: "(2::rat) powi (52 - k) = of_int (2 ^ nat (52 - k))"
    using k52 by (simp add: power_int_def)
  have p: "(0::rat) < 2 powi (k - 52)" by simp
  have "x / 2 powi (k - 52) = x * 2 powi (52 - k)"
    using inv p by (simp add: field_simps)
  also have "\<dots> = of_int (w * 2 ^ nat (52 - k))"
    unfolding pw x_def by simp
  finally have s: "x / 2 powi (k - 52) = of_int (w * 2 ^ nat (52 - k))" .
  have "double x = of_int (w * 2 ^ nat (52 - k)) * 2 powi (k - 52)"
    unfolding double_pos_unfold[OF x] k_def[symmetric] s rne_of_int ..
  also have "\<dots> = x * (2 powi (52 - k) * 2 powi (k - 52))"
    unfolding pw x_def by simp
  finally show ?thesis unfolding inv x_def by simp
qed

section \<open>Arithmetic of the renderer\<close>

lemma py_int_nonneg: "0 \<le> x \<Longrightarrow> py_int x = \<lfloor>x\<rfloor>"
  by (simp add: py_int_def)

lemma py_int_of_int: "py_int (of_int k) = k"
  by (simp add: py_int_def)

lemma y_paths_agree: "of_int (y_simple pos height k) = y_complex pos height (of_int k)"
proof -
  have "(of_int height - of_int k) / (2::rat) = of_int (height - k) / of_int 2" by simp
  then have "\<lfloor>(of_int height - of_int k) / (2::rat)\<rfloor> = (height - k) div 2"
    by (simp only: floor_divide_of_int_eq)
  then show ?thesis
    by (simp add: y_simple_def y_complex_def py_int_of_int of_int_max)
qed

lemma y_complex_ge_30: "30 \<le> y_complex pos height h"
  by (simp add: y_complex_def)

lemma double_255: "double 255 = 255"
  using double_of_int[of 255] by simp

lemma double_1: "double 1 = 1"
  using double_of_int[of 1] by simp

lemma box_alpha8_range: "0 \<le> box_alpha8 a \<and> box_alpha8 a \<le> 255"
proof -
  let ?c = "max 0 (min 1 a)"
  have c: "0 \<le> ?c * 255" "?c * 255 \<le> 255" by simp_all
  from double_nonneg[OF c(1)] have lo: "0 \<le> double (?c * 255)" .
  from double_mono[OF c] have hi: "double (?c * 255) \<le> 255" by (simp add: double_255)
  from lo hi have "0 \<le> \<lfloor>double (?c * 255)\<rfloor>" and "\<lfloor>double (?c * 255)\<rfloor> \<le> 255"
    by (simp_all add: floor_le_iff le_floor_iff)
  with lo show ?thesis by (simp add: box_alpha8_def py_int_def)
qed

lemma default_alpha: "box_alpha8 (double (3 / 5)) = 153"
  by code_simp

lemma bar_width_bounds:
  assumes "0 \<le> width" and "width < 2 ^ 53" and "idx < n"
  shows "0 \<le> bar_width width idx n \<and> bar_width width idx n \<le> width"
proof -
  let ?q = "of_nat (idx + 1) / of_nat n :: rat"
  from assms(3) have q: "0 \<le> ?q" "?q \<le> 1" by simp_all
  from double_nonneg[OF q(1)] have f0: "0 \<le> double ?q" .
  from double_mono[OF q] have f1: "double ?q \<le> 1" by (simp add: double_1)
  from assms(1) have w0: "(0::rat) \<le> of_int width" by simp
  from f0 w0 have p0: "0 \<le> of_int width * double ?q" by simp
  from f1 w0 have p1: "of_int width * double ?q \<le> of_int width"
    using mult_left_mono[of "double ?q" 1 "of_int width"] by simp
  from double_nonneg[OF p0] have d0: "0 \<le> double (of_int width * double ?q)" .
  from double_mono[OF p0 p1] double_of_int[OF assms(1,2)]
  have d1: "double (of_int width * double ?q) \<le> of_int width" by simp
  from d0 d1 have "0 \<le> \<lfloor>double (of_int width * double ?q)\<rfloor>"
    and "\<lfloor>double (of_int width * double ?q)\<rfloor> \<le> width"
    by (simp_all add: floor_le_iff le_floor_iff)
  with d0 show ?thesis by (simp add: bar_width_def py_int_def)
qed

lemma bar_width_last:
  assumes "0 \<le> width" and "width < 2 ^ 53" and "0 < n"
  shows "bar_width width (n - 1) n = width"
proof -
  from assms(3) have "(of_nat (n - 1 + 1) / of_nat n :: rat) = 1" by simp
  then show ?thesis
    unfolding bar_width_def
    by (simp only: double_1 mult_1_right double_of_int[OF assms(1,2)] py_int_of_int)
qed

lemma bar_width_7_of_10: "bar_width 720 6 10 = 503"
  by code_simp

section \<open>Claims about rendering\<close>

text \<open>The slide of the passage \<open>Hi\<close> in the sample world, with the default style.\<close>

lemma sample_simple_frame:
  "render_text_image 0 sample_env [72, 105] ''font.ttf'' None default_style =
     Some (Inr \<lparr>fr_size = (720, 1280), fr_background = Solid (40, 40, 40, 255),
                 fr_box = (30, 609, 690, 670), fr_box_rgba = ((0, 0, 0), 153),
                 fr_font = TrueType ''font.ttf'' 60, fr_lines = [[72, 105]],
                 fr_y = 629, fr_ink = (255, 255, 255), fr_shadow = None\<rparr>)"
  by (simp add: render_text_image_def sample_env_def default_style_def load_background_def
        default_alpha str_split_def isspace_def total_h_simple_def y_simple_def)

text \<open>The fill of the box of a rendered frame: the parsed box colour and the scaled alpha.\<close>

lemma render_fill_alpha:
  assumes "render_text_image fuel e t font_path bg_path st = Some (Inr fr)"
  shows "getrgb e (box_color st) = Some (fst (fr_box_rgba fr)) \<and>
         snd (fr_box_rgba fr) = box_alpha8 (box_alpha st)"
  using assms unfolding render_text_image_def
  by (auto simp: Let_def split: sum.splits option.splits if_splits)

text \<open>
  Claim C10. Whatever the box alpha given, below 0 and above 1 included, line 133
  clamps it into the interval from 0 to 1 before scaling, so the alpha of the box
  fill is an integer from 0 to 255: 0 for every input at or below 0, 255 for every
  input at or above 1. An out-of-range value is not rejected: the renderer's outcome
  with it is its outcome with the clamped value, and the fill of every frame it
  renders is the box colour with exactly this alpha.
\<close>

theorem box_alpha_clamped:
  "0 \<le> box_alpha8 a \<and> box_alpha8 a \<le> 255 \<and>
   box_alpha8 a = box_alpha8 (max 0 (min 1 a)) \<and>
   box_alpha8 (min a 0) = 0 \<and> box_alpha8 (max a 1) = 255 \<and>
   render_text_image fuel e t font_path bg_path (st\<lparr>box_alpha := a\<rparr>) =
     render_text_image fuel e t font_path bg_path (st\<lparr>box_alpha := max 0 (min 1 a)\<rparr>) \<and>
   (\<forall>fr. render_text_image fuel e t font_path bg_path (st\<lparr>box_alpha := a\<rparr>) = Some (Inr fr) \<longrightarrow>
      getrgb e (box_color st) = Some (fst (fr_box_rgba fr)) \<and>
      snd (fr_box_rgba fr) = box_alpha8 a \<and>
      0 \<le> snd (fr_box_rgba fr) \<and> snd (fr_box_rgba fr) \<le> 255)"
proof -
  let ?c = "max 0 (min 1 a)"
  have idem: "max 0 (min 1 ?c) = ?c" by simp
  have b2: "box_alpha8 a = box_alpha8 ?c"
    unfolding box_alpha8_def idem ..
  have b3: "box_alpha8 (min a 0) = 0"
    by (simp add: box_alpha8_def py_int_def min_def max_def double_0)
  have b4: "box_alpha8 (max a 1) = 255"
    by (simp add: box_alpha8_def py_int_def min_def max_def double_255)
  have b5: "render_text_image fuel e t font_path bg_path (st\<lparr>box_alpha := a\<rparr>) =
     render_text_image fuel e t font_path bg_path (st\<lparr>box_alpha := ?c\<rparr>)"
    by (simp add: render_text_image_def box_alpha8_def idem Let_def
          cong: option.case_cong sum.case_cong if_cong)
  have b6: "\<forall>fr. render_text_image fuel e t font_path bg_path (st\<lparr>box_alpha := a\<rparr>) = Some (Inr fr) \<longrightarrow>
      getrgb e (box_color st) = Some (fst (fr_box_rgba fr)) \<and>
      snd (fr_box_rgba fr) = box_alpha8 a \<and>
      0 \<le> snd (fr_box_rgba fr) \<and> snd (fr_box_rgba fr) \<le> 255"
    using render_fill_alpha[of fuel e t font_path bg_path "st\<lparr>box_alpha := a\<rparr>"]
      box_alpha8_range[of a]
    by auto
  from box_alpha8_range[of a] b2 b3 b4 b5 b6 show ?thesis by blast
qed

theorem box_alpha_clamped_witness:
  "render_text_image 0 sample_env [72, 105] ''font.ttf'' None (default_style\<lparr>box_alpha := 2\<rparr>) =
     Some (Inr \<lparr>fr_size = (720, 1280), fr_background = Solid (40, 40, 40, 255),
                 fr_box = (30, 609, 690, 670), fr_box_rgba = ((0, 0, 0), 255),
                 fr_font = TrueType ''font.ttf'' 60, fr_lines = [[72, 105]],
                 fr_y = 629, fr_ink = (255, 255, 255), fr_shadow = None\<rparr>) \<and>
   box_alpha8 2 = 255 \<and> box_alpha8 (- 1) = 0 \<and> box_alpha8 (double (3 / 5)) = 153"
proof -
  have a2: "box_alpha8 2 = 255"
    using box_alpha_clamped[of 2 0 sample_env "[72, 105]" "''font.ttf''" None default_style]
    by simp
  have a1: "box_alpha8 (- 1) = 0"
    using box_alpha_clamped[of "- 1" 0 sample_env "[72, 105]" "''font.ttf''" None default_style]
    by simp
  have "render_text_image 0 sample_env [72, 105] ''font.ttf'' None (default_style\<lparr>box_alpha := 2\<rparr>) =
     Some (Inr \<lparr>fr_size = (720, 1280), fr_background = Solid (40, 40, 40, 255),
                 fr_box = (30, 609, 690, 670), fr_box_rgba = ((0, 0, 0), 255),
                 fr_font = TrueType ''font.ttf'' 60, fr_lines = [[72, 105]],
                 fr_y = 629, fr_ink = (255, 255, 255), fr_shadow = None\<rparr>)"
    by (simp add: render_text_image_def sample_env_def default_style_def load_background_def
        a2 str_split_def isspace_def total_h_simple_def y_simple_def)
  with a1 a2 default_alpha show ?thesis by blast
qed

section \<open>Claims about the timeline\<close>

text \<open>The body of the loop over the images, for one slide.\<close>

lemma make_clip_duration:
  assumes "make_clip e audio_dir min_duration sz i img = Inr c"
  shows "audio_file e (au_path (sl_audio c)) = Some (au_file_duration (sl_audio c)) \<and>
         au_path (sl_audio c) = os_join audio_dir (''chunk_'' @ str_nat i @ ''.mp3'') \<and>
         sl_duration c = (if 0 < min_duration
                          then max (au_file_duration (sl_audio c)) min_duration
                          else au_file_duration (sl_audio c)) \<and>
         au_duration (sl_audio c) = sl_duration c \<and> sl_image c = img"
  using assms
  by (auto simp: make_clip_def Let_def max_def split: option.splits if_splits)

text \<open>
  Lines 340-350. Every slide plays the narration file of its index; its duration is
  the larger of the file's duration and \<open>min_duration\<close> when \<open>min_duration\<close> is
  positive, the file's duration otherwise; and the narration clip is set to the same
  duration as the slide.
\<close>

lemma make_clips_duration:
  assumes "make_clips e audio_dir min_duration sz i images = Inr clips"
  shows "list_all (\<lambda>c. audio_file e (au_path (sl_audio c)) = Some (au_file_duration (sl_audio c)) \<and>
                       sl_duration c = (if 0 < min_duration
                                        then max (au_file_duration (sl_audio c)) min_duration
                                        else au_file_duration (sl_audio c)) \<and>
                       au_duration (sl_audio c) = sl_duration c) clips \<and>
         map sl_image clips = images \<and>
         map (\<lambda>c. au_path (sl_audio c)) clips =
           map (\<lambda>k. os_join audio_dir (''chunk_'' @ str_nat k @ ''.mp3'')) [i ..< i + length images]"
  using assms
proof (induction images arbitrary: i clips)
  case Nil
  then show ?case by simp
next
  case (Cons img images)
  from Cons.prems obtain c cs where
    c: "make_clip e audio_dir min_duration sz i img = Inr c" and
    cs: "make_clips e audio_dir min_duration sz (Suc i) images = Inr cs" and
    clips: "clips = c # cs"
    by (auto split: sum.splits)
  have "[i ..< i + length (img # images)] = i # [Suc i ..< i + length (img # images)]"
    by (rule upt_conv_Cons) simp
  then have up: "[i ..< i + length (img # images)] = i # [Suc i ..< Suc i + length images]"
    by simp
  from make_clip_duration[OF c] Cons.IH[OF cs] show ?case
    unfolding up clips by (auto simp del: upt_Suc)
qed

text \<open>The timeline of one slide with a narration of 1.5 seconds, in the sample world.\<close>

lemma sample_timeline:
  "assemble_video sample_env [''images/img_0.png''] ''audio_chunks'' ''review_output.mp4'' None
     (720, 1280) None ''top-center'' 1 0 False ''#FFFFFF'' 6 =
   Inr ([], FadeOut 1 (FadeIn 1 (Concatenate
     [Slide \<lparr>sl_image = ''images/img_0.png'', sl_duration = 3 / 2,
              sl_audio = \<lparr>au_path = ''audio_chunks/chunk_0.mp3'', au_file_duration = 3 / 2,
                           au_duration = 3 / 2\<rparr>,
              sl_size = (720, 1280)\<rparr>])))"
  by (simp add: assemble_video_def make_clip_def sample_env_def os_join_def str_nat.simps
        overlay_logo_def)

text \<open>The images of the run over the passage \<open>Hi\<close>, in the sample world.\<close>

lemma sample_images:
  "generate_images 0 sample_env [[72, 105]] ''font.ttf'' ''images'' None default_style =
     ([(''images/img_0.png'',
        \<lparr>fr_size = (720, 1280), fr_background = Solid (40, 40, 40, 255),
           fr_box = (30, 609, 690, 670), fr_box_rgba = ((0, 0, 0), 153),
           fr_font = TrueType ''font.ttf'' 60, fr_lines = [[72, 105]],
           fr_y = 629, fr_ink = (255, 255, 255), fr_shadow = None\<rparr>)],
      Some (Inr [''images/img_0.png'']))"
  by (simp add: generate_images_def find_bg_files_def sample_simple_frame os_join_def
        str_nat.simps Let_def)

text \<open>The same timeline with a minimum duration of 5 seconds.\<close>

lemma sample_timeline_raised:
  "assemble_video sample_env [''images/img_0.png''] ''audio_chunks'' ''review_output.mp4'' None
     (720, 1280) None ''top-center'' 1 5 False ''#FFFFFF'' 6 =
   Inr ([], FadeOut 1 (FadeIn 1 (Concatenate
     [Slide \<lparr>sl_image = ''images/img_0.png'', sl_duration = 5,
              sl_audio = \<lparr>au_path = ''audio_chunks/chunk_0.mp3'', au_file_duration = 3 / 2,
                           au_duration = 5\<rparr>,
              sl_size = (720, 1280)\<rparr>])))"
  by (simp add: assemble_video_def make_clip_def sample_env_def os_join_def str_nat.simps
        overlay_logo_def)

text \<open>The overlays keep the slides of the timeline, in order.\<close>

lemma progress_clips_slides:
  "progress_clips sz ph rgb n k clips = Inr new_clips \<Longrightarrow>
   concat (map slides_of new_clips) = clips"
proof (induction clips arbitrary: k new_clips)
  case Nil
  then show ?case by simp
next
  case (Cons c clips)
  from Cons.prems obtain rest where
    rest: "progress_clips sz ph rgb n (Suc k) clips = Inr rest" and
    new: "new_clips = CompositeVideoClip
            [Slide c, ColorClip (fst sz, ph) (30, 30, 30) (sl_duration c) (''center'', ''bottom''),
             ColorClip (bar_width (fst sz) k n, ph) rgb (sl_duration c) (''left'', ''bottom'')] # rest"
    by (auto simp: Let_def split: if_splits sum.splits)
  from Cons.IH[OF rest] new show ?case by simp
qed

lemma overlay_logo_slides:
  "slides_of (snd (overlay_logo e sz logo_path logo_position logo_opacity final)) = slides_of final"
  by (simp add: overlay_logo_def Let_def split: option.splits sum.splits)

text \<open>The narrated slides of the final timeline are the clips of the loop.\<close>

lemma assemble_video_slides:
  assumes "assemble_video e images audio_dir output_path bg_music sz logo_path logo_position
             logo_opacity min_duration enable_progress_bar progress_color progress_height =
           Inr (warnings, final)"
  shows "make_clips e audio_dir min_duration sz 0 images = Inr (slides_of final)"
proof (cases "make_clips e audio_dir min_duration sz 0 images")
  case (Inl err)
  with assms show ?thesis by (simp add: assemble_video_def)
next
  case (Inr clips)
  with assms show ?thesis
    unfolding assemble_video_def
    by (auto simp: Let_def case_prod_beta overlay_logo_slides progress_clips_slides comp_def
        split: sum.splits if_splits option.splits)
qed

text \<open>
  Claim C5 says that a slide's duration is the larger of the narration's duration
  and the minimum duration, and that when the duration is raised the audio is padded
  with silence. The duration is as claimed, but nothing pads the audio: line 345,
  \<open>audio.set_duration(duration)\<close>, only relabels the clip, which still reads the
  same file. Whenever the narration file of a slide is at least a tenth of a second
  shorter than a positive minimum duration, the slide and its audio clip are set to
  the minimum duration, and writing the video then reads the narration past the end
  of its file and raises \<open>OSError\<close>: the run aborts, no video is written.
\<close>

theorem raised_audio_not_padded:
  assumes run: "assemble_video e images audio_dir output_path bg_music sz logo_path logo_position
             logo_opacity min_duration enable_progress_bar progress_color progress_height =
           Inr (warnings, final)"
    and i: "i < length images"
    and d: "audio_file e (os_join audio_dir (''chunk_'' @ str_nat i @ ''.mp3'')) = Some d"
    and pos: "0 < min_duration"
    and short: "d + 1 / 10 \<le> min_duration"
  shows "i < length (slides_of final) \<and>
         sl_image (slides_of final ! i) = images ! i \<and>
         sl_duration (slides_of final ! i) = min_duration \<and>
         au_duration (sl_audio (slides_of final ! i)) = min_duration \<and>
         au_file_duration (sl_audio (slides_of final ! i)) = d \<and>
         write_videofile e final = Inl OSError"
proof -
  let ?cs = "slides_of final"
  let ?p = "\<lambda>k. os_join audio_dir (''chunk_'' @ str_nat k @ ''.mp3'')"
  from assemble_video_slides[OF run]
  have mc: "make_clips e audio_dir min_duration sz 0 images = Inr ?cs" .
  from make_clips_duration[OF mc]
  have all: "list_all (\<lambda>c. audio_file e (au_path (sl_audio c)) = Some (au_file_duration (sl_audio c)) \<and>
                       sl_duration c = (if 0 < min_duration
                                        then max (au_file_duration (sl_audio c)) min_duration
                                        else au_file_duration (sl_audio c)) \<and>
                       au_duration (sl_audio c) = sl_duration c) ?cs"
    and imgs: "map sl_image ?cs = images"
    and paths: "map (\<lambda>c. au_path (sl_audio c)) ?cs = map ?p [0 ..< 0 + length images]"
    by simp_all
  from imgs have len: "length ?cs = length images" by (metis length_map)
  with i have i': "i < length ?cs" by simp
  from imgs i' have img: "sl_image (?cs ! i) = images ! i" by (metis nth_map)
  from i' have "au_path (sl_audio (?cs ! i)) = map (\<lambda>c. au_path (sl_audio c)) ?cs ! i" by simp
  also have "\<dots> = map ?p [0 ..< 0 + length images] ! i" by (simp only: paths)
  also from i have "\<dots> = ?p i" by simp
  finally have path: "au_path (sl_audio (?cs ! i)) = ?p i" .
  from all i' have c: "audio_file e (au_path (sl_audio (?cs ! i))) = Some (au_file_duration (sl_audio (?cs ! i)))"
    "sl_duration (?cs ! i) = (if 0 < min_duration
                                        then max (au_file_duration (sl_audio (?cs ! i))) min_duration
                                        else au_file_duration (sl_audio (?cs ! i)))"
    "au_duration (sl_audio (?cs ! i)) = sl_duration (?cs ! i)"
    by (simp_all add: list_all_length)
  from c(1) path d have fd: "au_file_duration (sl_audio (?cs ! i)) = d" by simp
  from c(2) fd pos short have dur: "sl_duration (?cs ! i) = min_duration" by simp
  from c(3) dur have adur: "au_duration (sl_audio (?cs ! i)) = min_duration" by simp
  from fd adur short have "read_past_end e (sl_audio (?cs ! i))" by (simp add: read_past_end_def)
  with i' have "list_ex (\<lambda>s. read_past_end e (sl_audio s)) ?cs"
    unfolding list_ex_iff using nth_mem by blast
  then have "write_videofile e final = Inl OSError" by (simp add: write_videofile_def)
  with i' img dur adur fd show ?thesis by simp
qed

theorem raised_audio_not_padded_witness:
  "main 0 sample_env (default_args\<lparr>args_min_duration := 5\<rparr>) [[72, 105]] =
     ([Info_TTS 1, Info_rendering, Info_assembling], Some (Inl OSError)) \<and>
   audio_file sample_env ''audio_chunks/chunk_0.mp3'' = Some (3 / 2) \<and>
   write_videofile sample_env (FadeOut 1 (FadeIn 1 (Concatenate
     [Slide \<lparr>sl_image = ''images/img_0.png'', sl_duration = 5,
              sl_audio = \<lparr>au_path = ''audio_chunks/chunk_0.mp3'', au_file_duration = 3 / 2,
                           au_duration = 5\<rparr>,
              sl_size = (720, 1280)\<rparr>]))) = Inl OSError"
proof -
  have a: "audio_file sample_env (os_join ''audio_chunks'' (''chunk_'' @ str_nat 0 @ ''.mp3'')) = Some (3 / 2)"
    by (simp add: sample_env_def os_join_def str_nat.simps)
  have b: "audio_file sample_env ''audio_chunks/chunk_0.mp3'' = Some (3 / 2)"
    by (simp add: sample_env_def)
  from raised_audio_not_padded[OF sample_timeline_raised _ a]
  have w: "write_videofile sample_env (FadeOut 1 (FadeIn 1 (Concatenate
     [Slide \<lparr>sl_image = ''images/img_0.png'', sl_duration = 5,
              sl_audio = \<lparr>au_path = ''audio_chunks/chunk_0.mp3'', au_file_duration = 3 / 2,
                           au_duration = 5\<rparr>,
              sl_size = (720, 1280)\<rparr>]))) = Inl OSError"
    by simp
  have m: "main 0 sample_env (default_args\<lparr>args_min_duration := 5\<rparr>) [[72, 105]] =
     ([Info_TTS 1, Info_rendering, Info_assembling], Some (Inl OSError))"
  proof -
    have rs: "resolve_style (default_args\<lparr>args_min_duration := 5\<rparr>) = default_style"
      by (simp add: resolve_style_def default_args_def default_style_def)
    show ?thesis
      unfolding main_def
      by (simp add: rs) (simp add: default_args_def sample_images sample_timeline_raised w)
  qed
  from m b w show ?thesis by simp
qed

text \<open>
  Claim C6 says that each fade is clamped to at most half of the total duration. The
  code has no clamp: line 422 is \<open>final.fadein(1).fadeout(1)\<close>. On a timeline
  of 1.5 seconds both fades are 1 second long, more than half of the total.
\<close>

theorem fades_counterexample:
  "assemble_video sample_env [''images/img_0.png''] ''audio_chunks'' ''review_output.mp4'' None
     (720, 1280) None ''top-center'' 1 0 False ''#FFFFFF'' 6 =
   Inr ([], FadeOut 1 (FadeIn 1 (Concatenate
     [Slide \<lparr>sl_image = ''images/img_0.png'', sl_duration = 3 / 2,
              sl_audio = \<lparr>au_path = ''audio_chunks/chunk_0.mp3'', au_file_duration = 3 / 2,
                           au_duration = 3 / 2\<rparr>,
              sl_size = (720, 1280)\<rparr>]))) \<and>
   clip_duration (Concatenate
     [Slide \<lparr>sl_image = ''images/img_0.png'', sl_duration = 3 / 2,
              sl_audio = \<lparr>au_path = ''audio_chunks/chunk_0.mp3'', au_file_duration = 3 / 2,
                           au_duration = 3 / 2\<rparr>,
              sl_size = (720, 1280)\<rparr>]) / 2 < 1"
  using sample_timeline by simp

text \<open>
  Claim C6, amended. A fade-in and a fade-out of exactly 1 second each are applied
  to the final timeline, after the concatenation, the music, the logo and the
  progress bars, whatever the total duration (there is no clamp); the fades do not
  change the duration of the timeline.
\<close>

theorem fades_fixed:
  assumes "assemble_video e images audio_dir output_path bg_music sz logo_path logo_position
             logo_opacity min_duration enable_progress_bar progress_color progress_height =
           Inr (warnings, final)"
  shows "\<exists>c. final = FadeOut 1 (FadeIn 1 c) \<and> clip_duration final = clip_duration c"
  using assms unfolding assemble_video_def
  by (auto simp: Let_def split: sum.splits if_splits prod.splits)

theorem fades_fixed_witness:
  "\<exists>c. FadeOut 1 (FadeIn 1 (Concatenate
     [Slide \<lparr>sl_image = ''images/img_0.png'', sl_duration = 3 / 2,
              sl_audio = \<lparr>au_path = ''audio_chunks/chunk_0.mp3'', au_file_duration = 3 / 2,
                           au_duration = 3 / 2\<rparr>,
              sl_size = (720, 1280)\<rparr>])) = FadeOut 1 (FadeIn 1 c) \<and>
        clip_duration (FadeOut 1 (FadeIn 1 (Concatenate
     [Slide \<lparr>sl_image = ''images/img_0.png'', sl_duration = 3 / 2,
              sl_audio = \<lparr>au_path = ''audio_chunks/chunk_0.mp3'', au_file_duration = 3 / 2,
                           au_duration = 3 / 2\<rparr>,
              sl_size = (720, 1280)\<rparr>]))) = clip_duration c"
  by (rule fades_fixed[OF sample_timeline])

text \<open>
  The overlays of the slides when no colour clip raises: slide \<open>j\<close> under the
  background bar and its own foreground bar.
\<close>

lemma progress_clips_Inr:
  assumes "0 \<le> fst sz" and "fst sz < 2 ^ 53" and "0 \<le> ph" and "k + length clips \<le> n"
  shows "progress_clips sz ph rgb n k clips =
     Inr (map (\<lambda>(j, c). CompositeVideoClip
               [Slide c,
                ColorClip (fst sz, ph) (30, 30, 30) (sl_duration c) (''center'', ''bottom''),
                ColorClip (bar_width (fst sz) j n, ph) rgb (sl_duration c) (''left'', ''bottom'')])
            (zip [k ..< k + length clips] clips))"
  using assms(4)
proof (induction clips arbitrary: k)
  case Nil
  then show ?case by simp
next
  case (Cons c clips)
  from Cons.prems have k: "k < n" and rest: "Suc k + length clips \<le> n" by simp_all
  from bar_width_bounds[OF assms(1) assms(2) k] have b: "0 \<le> bar_width (fst sz) k n" by simp
  have "[k ..< k + length (c # clips)] = k # [Suc k ..< k + length (c # clips)]"
    by (rule upt_conv_Cons) simp
  then have up: "[k ..< k + length (c # clips)] = k # [Suc k ..< Suc k + length clips]"
    by simp
  from Cons.IH[OF rest] b assms(1) assms(3) show ?case
    unfolding up by (simp add: Let_def color_clip_raises_def del: upt_Suc)
qed

text \<open>
  Claim C4 says that the bar is \<open>round(canvas_width * (i+1)/n)\<close> pixels wide. Line
  403 is \<open>int(size[0] * progress_fraction)\<close>, which truncates: for the first of 7
  slides on a canvas 720 wide the bar is 102 pixels wide, and the rounded value
  is 103.
\<close>

theorem bar_width_counterexample:
  "bar_width 720 0 7 = 102 \<and> round (of_int 720 * (of_nat (0 + 1) / of_nat 7) :: rat) = 103"
  by code_simp

text \<open>
  Claim C4, amended. With the progress bar enabled, on a canvas whose width is not
  negative (and below \<open>2 ^ 53\<close>) and with a bar height that is not negative, the
  overlays are built for every slide, and for slide \<open>i\<close> of \<open>n\<close> the foreground bar
  is \<open>int(canvas_width * ((i+1)/n))\<close> pixels wide: the quotient and the product are
  those of double-precision floats, each rounded to the nearest double, and the
  product is truncated to an integer, not rounded. The width lies between 0 and
  \<open>canvas_width\<close>, and for the last slide it is exactly \<open>canvas_width\<close>. (On a
  canvas 720 wide, slide 7 of 10 has a bar of 503 pixels, lemma
  \<open>bar_width_7_of_10\<close>: the float product is just below 504.)
\<close>

theorem progress_bar_width:
  assumes "0 \<le> fst sz" and "fst sz < 2 ^ 53" and "0 \<le> ph" and "i < length clips"
  shows "\<exists>new_clips.
           progress_clips sz ph rgb (length clips) 0 clips = Inr new_clips \<and>
           length new_clips = length clips \<and>
           new_clips ! i = CompositeVideoClip
             [Slide (clips ! i),
              ColorClip (fst sz, ph) (30, 30, 30) (sl_duration (clips ! i)) (''center'', ''bottom''),
              ColorClip (bar_width (fst sz) i (length clips), ph) rgb (sl_duration (clips ! i))
                (''left'', ''bottom'')] \<and>
           bar_width (fst sz) i (length clips) =
             py_int (double (of_int (fst sz) * double (of_nat (i + 1) / of_nat (length clips)))) \<and>
           0 \<le> bar_width (fst sz) i (length clips) \<and>
           bar_width (fst sz) i (length clips) \<le> fst sz \<and>
           bar_width (fst sz) (length clips - 1) (length clips) = fst sz"
proof -
  let ?n = "length clips"
  let ?f = "\<lambda>(j, c). CompositeVideoClip
               [Slide c,
                ColorClip (fst sz, ph) (30, 30, 30) (sl_duration c) (''center'', ''bottom''),
                ColorClip (bar_width (fst sz) j ?n, ph) rgb (sl_duration c) (''left'', ''bottom'')]"
  have run: "progress_clips sz ph rgb ?n 0 clips = Inr (map ?f (zip [0 ..< 0 + ?n] clips))"
    by (rule progress_clips_Inr[OF assms(1) assms(2) assms(3)]) simp
  have len: "length (map ?f (zip [0 ..< 0 + ?n] clips)) = ?n" by simp
  from assms(4) have nth: "map ?f (zip [0 ..< 0 + ?n] clips) ! i = ?f (i, clips ! i)" by simp
  from assms(4) have n: "0 < ?n" by linarith
  note b = bar_width_bounds[OF assms(1) assms(2) assms(4)]
  note l = bar_width_last[OF assms(1) assms(2) n]
  have d: "bar_width (fst sz) i ?n =
             py_int (double (of_int (fst sz) * double (of_nat (i + 1) / of_nat ?n)))"
    by (simp add: bar_width_def)
  from run len nth b l d show ?thesis by simp
qed

theorem progress_bar_width_witness:
  "\<exists>new_clips.
     progress_clips (720, 6) 6 (255, 255, 255) 7 0
       (replicate 7 \<lparr>sl_image = ''images/img_0.png'', sl_duration = 3 / 2,
                     sl_audio = \<lparr>au_path = ''audio_chunks/chunk_0.mp3'',
                                  au_file_duration = 3 / 2, au_duration = 3 / 2\<rparr>,
                     sl_size = (720, 1280)\<rparr>) = Inr new_clips \<and>
     length new_clips = 7 \<and>
     new_clips ! 0 = CompositeVideoClip
       [Slide \<lparr>sl_image = ''images/img_0.png'', sl_duration = 3 / 2,
                sl_audio = \<lparr>au_path = ''audio_chunks/chunk_0.mp3'',
                             au_file_duration = 3 / 2, au_duration = 3 / 2\<rparr>,
                sl_size = (720, 1280)\<rparr>,
        ColorClip (720, 6) (30, 30, 30) (3 / 2) (''center'', ''bottom''),
        ColorClip (102, 6) (255, 255, 255) (3 / 2) (''left'', ''bottom'')] \<and>
     bar_width 720 6 7 = 720"
proof -
  have w: "bar_width 720 0 7 = 102" by code_simp
  from progress_bar_width[of "(720, 6)" 6 0
      "replicate 7 \<lparr>sl_image = ''images/img_0.png'', sl_duration = 3 / 2,
                     sl_audio = \<lparr>au_path = ''audio_chunks/chunk_0.mp3'',
                                  au_file_duration = 3 / 2, au_duration = 3 / 2\<rparr>,
                     sl_size = (720, 1280)\<rparr>" "(255, 255, 255)"] w
  show ?thesis by simp blast
qed

section \<open>Claims about the driver\<close>

text \<open>
  Claim C9. The presets are resolved in \<open>main\<close> into the four style fields before
  anything is rendered. The style the renderer is given with the preset \<open>caption\<close>
  is the style of \<open>style=default\<close> with the text position \<open>top\<close>, the box colour
  \<open>#000000\<close>, the box alpha \<open>0.7\<close> and the font colour \<open>#FFFF00\<close>; with the preset
  \<open>subtitle\<close> it is that style with \<open>bottom\<close>, \<open>#000000\<close>, \<open>0.7\<close> and \<open>#FFFFFF\<close>;
  and the style of \<open>style=default\<close> is made of the arguments as given. A run with a
  preset is the run with \<open>style=default\<close> and the resolved values of these fields,
  frame for frame and in its whole outcome. The renderer is never given the preset
  name (\<open>generate_images\<close> and \<open>render_text_image\<close> take the resolved style only), so
  nothing below \<open>main\<close> can branch on it. In the sample world the slide of the
  passage \<open>Hi\<close> under the preset \<open>caption\<close> has its text at the top margin 60, in
  yellow, on a black box of alpha 178.
\<close>

theorem preset_is_resolved:
  "resolve_style (a\<lparr>args_style := ''default''\<rparr>) =
     \<lparr>canvas = (args_width a, args_height a), font_size = args_font_size a,
      font_color = args_font_color a, box_color = args_box_color a,
      box_alpha = args_box_alpha a, text_position = args_text_position a,
      enable_shadow = args_enable_shadow a, shadow_color = args_shadow_color a,
      shadow_offset_x = args_shadow_offset_x a, shadow_offset_y = args_shadow_offset_y a\<rparr> \<and>
   resolve_style (a\<lparr>args_style := ''caption''\<rparr>) =
     (resolve_style (a\<lparr>args_style := ''default''\<rparr>))
       \<lparr>text_position := ''top'', box_color := ''#000000'', box_alpha := double (7 / 10),
        font_color := ''#FFFF00''\<rparr> \<and>
   resolve_style (a\<lparr>args_style := ''subtitle''\<rparr>) =
     (resolve_style (a\<lparr>args_style := ''default''\<rparr>))
       \<lparr>text_position := ''bottom'', box_color := ''#000000'', box_alpha := double (7 / 10),
        font_color := ''#FFFFFF''\<rparr> \<and>
   main fuel e (a\<lparr>args_style := ''caption''\<rparr>) chunks =
     main fuel e (a\<lparr>args_style := ''default'', args_text_position := ''top'',
                    args_box_color := ''#000000'', args_box_alpha := double (7 / 10),
                    args_font_color := ''#FFFF00''\<rparr>) chunks \<and>
   main fuel e (a\<lparr>args_style := ''subtitle''\<rparr>) chunks =
     main fuel e (a\<lparr>args_style := ''default'', args_text_position := ''bottom'',
                    args_box_color := ''#000000'', args_box_alpha := double (7 / 10),
                    args_font_color := ''#FFFFFF''\<rparr>) chunks \<and>
   generate_images fuel e chunks font_path image_dir bg_img
       (resolve_style (a\<lparr>args_style := ''caption''\<rparr>)) =
     generate_images fuel e chunks font_path image_dir bg_img
       (resolve_style (a\<lparr>args_style := ''default'', args_text_position := ''top'',
                    args_box_color := ''#000000'', args_box_alpha := double (7 / 10),
                    args_font_color := ''#FFFF00''\<rparr>)) \<and>
   generate_images fuel e chunks font_path image_dir bg_img
       (resolve_style (a\<lparr>args_style := ''subtitle''\<rparr>)) =
     generate_images fuel e chunks font_path image_dir bg_img
       (resolve_style (a\<lparr>args_style := ''default'', args_text_position := ''bottom'',
                    args_box_color := ''#000000'', args_box_alpha := double (7 / 10),
                    args_font_color := ''#FFFFFF''\<rparr>)) \<and>
   render_text_image 0 sample_env [72, 105] ''font.ttf'' None
       (resolve_style (default_args\<lparr>args_style := ''caption''\<rparr>)) =
     Some (Inr \<lparr>fr_size = (720, 1280), fr_background = Solid (40, 40, 40, 255),
                 fr_box = (30, 40, 690, 101), fr_box_rgba = ((0, 0, 0), 178),
                 fr_font = TrueType ''font.ttf'' 60, fr_lines = [[72, 105]],
                 fr_y = 60, fr_ink = (255, 255, 0), fr_shadow = None\<rparr>)"
proof -
  have d: "resolve_style (a\<lparr>args_style := ''default''\<rparr>) =
     \<lparr>canvas = (args_width a, args_height a), font_size = args_font_size a,
      font_color = args_font_color a, box_color = args_box_color a,
      box_alpha = args_box_alpha a, text_position = args_text_position a,
      enable_shadow = args_enable_shadow a, shadow_color = args_shadow_color a,
      shadow_offset_x = args_shadow_offset_x a, shadow_offset_y = args_shadow_offset_y a\<rparr>"
    by (simp add: resolve_style_def)
  have c': "resolve_style (a\<lparr>args_style := ''caption''\<rparr>) =
     (resolve_style (a\<lparr>args_style := ''default''\<rparr>))
       \<lparr>text_position := ''top'', box_color := ''#000000'', box_alpha := double (7 / 10),
        font_color := ''#FFFF00''\<rparr>"
    by (simp add: resolve_style_def)
  have s': "resolve_style (a\<lparr>args_style := ''subtitle''\<rparr>) =
     (resolve_style (a\<lparr>args_style := ''default''\<rparr>))
       \<lparr>text_position := ''bottom'', box_color := ''#000000'', box_alpha := double (7 / 10),
        font_color := ''#FFFFFF''\<rparr>"
    by (simp add: resolve_style_def)
  have c: "resolve_style (a\<lparr>args_style := ''caption''\<rparr>) =
        resolve_style (a\<lparr>args_style := ''default'', args_text_position := ''top'',
                    args_box_color := ''#000000'', args_box_alpha := double (7 / 10),
                    args_font_color := ''#FFFF00''\<rparr>)"
    by (simp add: resolve_style_def)
  have s: "resolve_style (a\<lparr>args_style := ''subtitle''\<rparr>) =
        resolve_style (a\<lparr>args_style := ''default'', args_text_position := ''bottom'',
                    args_box_color := ''#000000'', args_box_alpha := double (7 / 10),
                    args_font_color := ''#FFFFFF''\<rparr>)"
    by (simp add: resolve_style_def)
  have mc: "main fuel e (a\<lparr>args_style := ''caption''\<rparr>) chunks =
     main fuel e (a\<lparr>args_style := ''default'', args_text_position := ''top'',
                    args_box_color := ''#000000'', args_box_alpha := double (7 / 10),
                    args_font_color := ''#FFFF00''\<rparr>) chunks"
    unfolding main_def c
    by (simp add: Let_def cong: option.case_cong sum.case_cong prod.case_cong)
  have ms: "main fuel e (a\<lparr>args_style := ''subtitle''\<rparr>) chunks =
     main fuel e (a\<lparr>args_style := ''default'', args_text_position := ''bottom'',
                    args_box_color := ''#000000'', args_box_alpha := double (7 / 10),
                    args_font_color := ''#FFFFFF''\<rparr>) chunks"
    unfolding main_def s
    by (simp add: Let_def cong: option.case_cong sum.case_cong prod.case_cong)
  have a178: "box_alpha8 (double (7 / 10)) = 178" by code_simp
  have fr: "render_text_image 0 sample_env [72, 105] ''font.ttf'' None
       (resolve_style (default_args\<lparr>args_style := ''caption''\<rparr>)) =
     Some (Inr \<lparr>fr_size = (720, 1280), fr_background = Solid (40, 40, 40, 255),
                 fr_box = (30, 40, 690, 101), fr_box_rgba = ((0, 0, 0), 178),
                 fr_font = TrueType ''font.ttf'' 60, fr_lines = [[72, 105]],
                 fr_y = 60, fr_ink = (255, 255, 0), fr_shadow = None\<rparr>)"
    by (simp add: render_text_image_def resolve_style_def default_args_def sample_env_def
          load_background_def a178 str_split_def isspace_def total_h_simple_def y_simple_def)
  from d c' s' mc ms fr show ?thesis
    unfolding c s by simp
qed

section \<open>Claims about placement, backgrounds and fonts\<close>

text \<open>
  Claim C8 gives the block top for \<open>anchor=center\<close> as (canvas height - block
  height)/2 and for \<open>anchor=bottom\<close> as canvas height - block height - 60, each
  floored at the minimum margin 30. The code works in whole pixels: the centre uses
  the floor division \<open>//\<close> (lines 181 and 241) and the complex path truncates the
  block height with \<open>int\<close> before subtracting (line 179). On a canvas 1280 high, one
  simple line of height 11 is placed at 629, not 629.5, and one complex line at font
  size 25 (block height 72.5) is anchored at the bottom at 1148, not 1147.5.
\<close>

theorem vertical_anchor_counterexample:
  "of_int (y_simple ''center'' 1280 (total_h_simple 1 11)) \<noteq>
     max ((of_int 1280 - of_int (total_h_simple 1 11)) / 2) (30 :: rat) \<and>
   y_complex ''bottom'' 1280 (total_h_complex 1 25) \<noteq>
     max (of_int 1280 - total_h_complex 1 25 - 60) 30"
proof -
  have a: "y_simple ''center'' 1280 (total_h_simple 1 11) = 629"
    by (simp add: y_simple_def total_h_simple_def)
  have h: "total_h_complex 1 25 = 145 / 2"
    by (simp add: total_h_complex_def)
  have "py_int (145 / 2) = 72"
    by (simp add: py_int_def floor_eq_iff)
  then have b: "y_complex ''bottom'' 1280 (145 / 2) = 1148"
    by (simp add: y_complex_def)
  show ?thesis
    unfolding a h b by (simp add: total_h_simple_def)
qed

text \<open>
  Claim C8, amended. Vertical placement follows one rule on both shaping paths (the
  rule of the complex path, applied to the block height of each path): with
  \<open>anchor=top\<close> the block top is the fixed top margin 60; with \<open>anchor=bottom\<close> it
  is canvas height minus the block height truncated to whole pixels minus the bottom
  margin 60, floored at the minimum margin 30; with \<open>anchor=center\<close> it is the floor
  of (canvas height - block height)/2, floored at the same minimum margin. So the
  block top is at least 30, and the box drawn 20 pixels above it is never at a
  negative position.
\<close>

theorem vertical_anchor:
  assumes "render_text_image fuel e t font_path bg_path st = Some (Inr fr)"
  shows "fr_y fr = y_complex (text_position st) (snd (canvas st))
           (if contains_complex_script t
            then total_h_complex (length (fr_lines fr)) (font_size st)
            else of_int (total_h_simple (length (fr_lines fr)) (getsize_A e (fr_font fr)))) \<and>
         fst (snd (fr_box fr)) = fr_y fr - 20 \<and> 30 \<le> fr_y fr \<and>
         y_complex ''top'' height h = 60 \<and>
         y_complex ''bottom'' height h = of_int (max (height - py_int h - 60) 30) \<and>
         y_complex ''center'' height h = max (of_int \<lfloor>(of_int height - h) / 2\<rfloor>) 30 \<and>
         of_int (y_simple pos height k) = y_complex pos height (of_int k)"
proof -
  have rule: "y_complex ''top'' height h = 60 \<and>
         y_complex ''bottom'' height h = of_int (max (height - py_int h - 60) 30) \<and>
         y_complex ''center'' height h = max (of_int \<lfloor>(of_int height - h) / 2\<rfloor>) 30"
    by (simp add: y_complex_def)
  have frame: "fr_y fr = y_complex (text_position st) (snd (canvas st))
           (if contains_complex_script t
            then total_h_complex (length (fr_lines fr)) (font_size st)
            else of_int (total_h_simple (length (fr_lines fr)) (getsize_A e (fr_font fr)))) \<and>
         fst (snd (fr_box fr)) = fr_y fr - 20"
    using assms unfolding render_text_image_def
    by (auto simp: Let_def y_paths_agree split: sum.splits option.splits if_splits)
  then have "30 \<le> fr_y fr"
    by (simp add: y_complex_ge_30)
  with rule frame y_paths_agree show ?thesis by blast
qed

theorem vertical_anchor_witness:
  "fr_y \<lparr>fr_size = (720, 1280), fr_background = Solid (40, 40, 40, 255),
                 fr_box = (30, 609, 690, 670), fr_box_rgba = ((0, 0, 0), 153),
                 fr_font = TrueType ''font.ttf'' 60, fr_lines = [[72, 105]],
                 fr_y = 629, fr_ink = (255, 255, 255), fr_shadow = None\<rparr> =
     y_complex ''center'' 1280 (of_int (total_h_simple 1 11)) \<and>
   y_complex ''center'' 1280 (of_int (total_h_simple 1 11)) = 629 \<and>
   y_complex ''bottom'' 1280 (total_h_complex 1 25) = 1148"
proof -
  have h: "total_h_complex 1 25 = 145 / 2"
    by (simp add: total_h_complex_def)
  have p: "py_int (145 / 2) = 72"
    by (simp add: py_int_def floor_eq_iff)
  show ?thesis
    unfolding h
    using vertical_anchor[OF sample_simple_frame, of 1280 "145 / 2" "''center''" 21] p
    by (simp add: sample_env_def default_style_def total_h_simple_def)
qed

text \<open>
  Claim C2 says that with a background directory that holds no matching image every
  slide falls back to the solid fill, a warning is logged and the pipeline succeeds.
  The code means to fall back (line 293, \<open>bg_files = None  # fallback to solid bg\<close>),
  but with the candidate list reset line 301 takes \<open>chosen_bg = bg_img\<close>, the
  directory itself, and hands it to the renderer, which opens it because it exists
  (lines 125 and 126). Whenever the background is a directory with zero matching
  image files and there is at least one passage, no candidate is selected, the
  renderer raises \<open>IsADirectoryError\<close> on the first slide, no slide is saved, and
  the run aborts with that exception after its two progress messages, without any
  warning.
\<close>

theorem empty_background_directory:
  assumes "fsys e d = Dir names" and "d \<noteq> []"
    and "filter (\<lambda>f. list_ex (endswith (lower f)) exts) names = []"
  shows "find_bg_files e (Some d) = None \<and>
         render_text_image fuel e t font_path (Some d) st = Some (Inl IsADirectoryError) \<and>
         generate_images fuel e (t # chunks) font_path image_dir (Some d) st =
           ([], Some (Inl IsADirectoryError)) \<and>
         main fuel e (a\<lparr>args_background := Some d\<rparr>) (t # chunks) =
           ([Info_TTS (Suc (length chunks)), Info_rendering], Some (Inl IsADirectoryError))"
proof -
  from assms have f: "find_bg_files e (Some d) = None"
    by (simp add: find_bg_files_def isdir_def listdir_def)
  from assms have l: "load_background e sz (Some d) = Inl IsADirectoryError" for sz
    by (simp add: load_background_def path_exists_def image_open_def)
  have r: "render_text_image fuel e t font_path (Some d) st = Some (Inl IsADirectoryError)" for font_path st
    by (simp add: render_text_image_def l)
  have g: "generate_images fuel e (t # chunks) font_path image_dir (Some d) st =
           ([], Some (Inl IsADirectoryError))" for font_path image_dir st
    by (simp add: generate_images_def f r Let_def)
  have m: "main fuel e (a\<lparr>args_background := Some d\<rparr>) (t # chunks) =
           ([Info_TTS (Suc (length chunks)), Info_rendering], Some (Inl IsADirectoryError))"
    by (simp add: main_def g Let_def)
  from f r g m show ?thesis by simp
qed

theorem empty_background_directory_witness:
  "fsys sample_env ''backgrounds'' = Dir [''notes.txt''] \<and>
   find_bg_files sample_env (Some ''backgrounds'') = None \<and>
   render_text_image 0 sample_env [72, 105] ''font.ttf'' (Some ''backgrounds'') default_style =
     Some (Inl IsADirectoryError) \<and>
   generate_images 0 sample_env [[72, 105]] ''font.ttf'' ''images'' (Some ''backgrounds'')
       default_style = ([], Some (Inl IsADirectoryError)) \<and>
   main 0 sample_env (default_args\<lparr>args_background := Some ''backgrounds''\<rparr>) [[72, 105]] =
     ([Info_TTS 1, Info_rendering], Some (Inl IsADirectoryError))"
  using empty_background_directory[of sample_env "''backgrounds''" "[''notes.txt'']" 0
      "[72, 105]" "''font.ttf''" default_style "[]" "''images''" default_args]
  by (simp add: sample_env_def exts_def endswith_def lower_def)

text \<open>
  Where the font is loaded: inside \<open>render_text_image\<close>, on the simple path with a
  fallback (lines 224 to 227), on the complex path without one (line 138).
\<close>

lemma render_simple_font:
  assumes "\<not> contains_complex_script t"
    and "render_text_image fuel e t font_path bg_path st = Some (Inr fr)"
  shows "fr_font fr = (if font_loads e font_path then TrueType font_path (font_size st)
                       else DefaultFont)"
  using assms unfolding render_text_image_def
  by (auto simp: Let_def split: sum.splits option.splits if_splits)

lemma render_simple_no_font_error:
  assumes "\<not> contains_complex_script t"
  shows "render_text_image fuel e t font_path bg_path st \<noteq> Some (Inl FT_Exception) \<and>
         render_text_image fuel e t font_path bg_path st \<noteq> None"
  using assms unfolding render_text_image_def load_background_def image_open_def
  by (auto simp: Let_def split: sum.splits option.splits if_splits fs_entry.splits)

lemma render_complex_bad_font:
  assumes "contains_complex_script t" and "\<not> font_loads e font_path"
  shows "\<exists>err. render_text_image fuel e t font_path bg_path st = Some (Inl err)"
  using assms unfolding render_text_image_def
  by (auto simp: Let_def split: sum.splits option.splits)

lemma render_complex_bad_font_exact:
  assumes "contains_complex_script t" and "\<not> font_loads e font_path"
    and "load_background e (canvas st) bg_path = Inr b"
    and "getrgb e (box_color st) = Some c1" and "getrgb e (shadow_color st) = Some c2"
  shows "render_text_image fuel e t font_path bg_path st = Some (Inl FT_Exception)"
  using assms unfolding render_text_image_def
  by (simp add: Let_def)

text \<open>The slide of the passage \<open>Hi\<close> when the font file does not load.\<close>

lemma sample_default_font_frame:
  "render_text_image 0 sample_env [72, 105] ''nofont.ttf'' None default_style =
     Some (Inr \<lparr>fr_size = (720, 1280), fr_background = Solid (40, 40, 40, 255),
                 fr_box = (30, 609, 690, 670), fr_box_rgba = ((0, 0, 0), 153),
                 fr_font = DefaultFont, fr_lines = [[72, 105]],
                 fr_y = 629, fr_ink = (255, 255, 255), fr_shadow = None\<rparr>)"
  by (simp add: render_text_image_def sample_env_def default_style_def load_background_def
        default_alpha str_split_def isspace_def total_h_simple_def y_simple_def)

text \<open>
  Claim C3 says that a font that cannot be loaded aborts the run with
  \<open>FontLoadError\<close> before any rendering, and that no other font is ever substituted.
  On the simple path the code catches the loader's exception and takes the built-in
  default font: with a font file that does not load, the run over the passage \<open>Hi\<close>
  renders and saves its slide, in the default font, and returns normally.
\<close>

theorem font_failure_counterexample:
  "\<not> font_loads sample_env ''nofont.ttf'' \<and>
   generate_images 0 sample_env [[72, 105]] ''nofont.ttf'' ''images'' None default_style =
     ([(''images/img_0.png'',
        \<lparr>fr_size = (720, 1280), fr_background = Solid (40, 40, 40, 255),
           fr_box = (30, 609, 690, 670), fr_box_rgba = ((0, 0, 0), 153),
           fr_font = DefaultFont, fr_lines = [[72, 105]],
           fr_y = 629, fr_ink = (255, 255, 255), fr_shadow = None\<rparr>)],
      Some (Inr [''images/img_0.png'']))"
proof -
  have "\<not> font_loads sample_env ''nofont.ttf''"
    by (simp add: sample_env_def)
  moreover have "find_bg_files sample_env None = None"
    by (simp add: find_bg_files_def)
  ultimately show ?thesis
    by (simp add: generate_images_def sample_default_font_frame os_join_def str_nat.simps Let_def)
qed

text \<open>
  Claim C3, amended. There is no font check before rendering; the font is loaded
  inside the renderer of each slide. When the font file cannot be loaded, a slide on
  the simple path never fails for it: the built-in default font is substituted
  silently and the slide is rendered. A slide on the complex path always ends in an
  exception (FreeType's, when the background and the colours are fine), raised when
  the loop over the chunks reaches that slide, with the slides before it already
  rendered and saved; that exception aborts the run.
\<close>

theorem font_failure_per_slide:
  assumes "\<not> font_loads e font_path"
  shows "(\<not> contains_complex_script t \<longrightarrow>
            render_text_image fuel e t font_path bg_path st \<noteq> Some (Inl FT_Exception) \<and>
            (\<forall>fr. render_text_image fuel e t font_path bg_path st = Some (Inr fr) \<longrightarrow>
                  fr_font fr = DefaultFont)) \<and>
         (contains_complex_script t \<longrightarrow>
            (\<exists>err. render_text_image fuel e t font_path bg_path st = Some (Inl err)) \<and>
            (\<exists>err. generate_loop fuel e font_path image_dir bg_img bg_files st i (t # chunks) saved =
                     (saved, Some (Inl err))) \<and>
            (\<forall>b c1 c2. load_background e (canvas st) bg_path = Inr b \<and>
                       getrgb e (box_color st) = Some c1 \<and> getrgb e (shadow_color st) = Some c2 \<longrightarrow>
               render_text_image fuel e t font_path bg_path st = Some (Inl FT_Exception)))"
proof -
  have simple: "\<not> contains_complex_script t \<longrightarrow>
            render_text_image fuel e t font_path bg_path st \<noteq> Some (Inl FT_Exception) \<and>
            (\<forall>fr. render_text_image fuel e t font_path bg_path st = Some (Inr fr) \<longrightarrow>
                  fr_font fr = DefaultFont)"
    using assms render_simple_font[of t fuel e font_path bg_path st]
      render_simple_no_font_error[of t fuel e font_path bg_path st]
    by auto
  have loop: "contains_complex_script t \<longrightarrow>
      (\<exists>err. generate_loop fuel e font_path image_dir bg_img bg_files st i (t # chunks) saved =
                     (saved, Some (Inl err)))"
  proof
    assume c: "contains_complex_script t"
    let ?bg = "case bg_files of Some fs \<Rightarrow> if fs \<noteq> [] then Some (choice e i fs) else bg_img
                | None \<Rightarrow> bg_img"
    from render_complex_bad_font[OF c assms, of fuel ?bg st]
    obtain err where "render_text_image fuel e t font_path ?bg st = Some (Inl err)" ..
    then have "generate_loop fuel e font_path image_dir bg_img bg_files st i (t # chunks) saved =
                     (saved, Some (Inl err))"
      by (simp add: Let_def)
    then show "\<exists>err. generate_loop fuel e font_path image_dir bg_img bg_files st i (t # chunks) saved =
                     (saved, Some (Inl err))" ..
  qed
  have complex: "contains_complex_script t \<longrightarrow>
            (\<exists>err. render_text_image fuel e t font_path bg_path st = Some (Inl err)) \<and>
            (\<forall>b c1 c2. load_background e (canvas st) bg_path = Inr b \<and>
                       getrgb e (box_color st) = Some c1 \<and> getrgb e (shadow_color st) = Some c2 \<longrightarrow>
               render_text_image fuel e t font_path bg_path st = Some (Inl FT_Exception))"
    using assms render_complex_bad_font[of t e font_path fuel bg_path st]
      render_complex_bad_font_exact[of t e font_path st bg_path _ _ _ fuel]
    by blast
  from simple loop complex show ?thesis by blast
qed

theorem font_failure_per_slide_witness:
  "\<not> font_loads sample_env ''nofont.ttf'' \<and>
   render_text_image 0 sample_env [72, 105] ''nofont.ttf'' None default_style
     \<noteq> Some (Inl FT_Exception) \<and>
   render_text_image 0 sample_env [2309, 2310] ''nofont.ttf'' None default_style
     = Some (Inl FT_Exception) \<and>
   (\<exists>err. generate_loop 0 sample_env ''nofont.ttf'' ''images'' None None default_style 1
             [[2309, 2310]]
             [(''images/img_0.png'',
               \<lparr>fr_size = (720, 1280), fr_background = Solid (40, 40, 40, 255),
                  fr_box = (30, 609, 690, 670), fr_box_rgba = ((0, 0, 0), 153),
                  fr_font = DefaultFont, fr_lines = [[72, 105]],
                  fr_y = 629, fr_ink = (255, 255, 255), fr_shadow = None\<rparr>)] =
            ([(''images/img_0.png'',
               \<lparr>fr_size = (720, 1280), fr_background = Solid (40, 40, 40, 255),
                  fr_box = (30, 609, 690, 670), fr_box_rgba = ((0, 0, 0), 153),
                  fr_font = DefaultFont, fr_lines = [[72, 105]],
                  fr_y = 629, fr_ink = (255, 255, 255), fr_shadow = None\<rparr>)],
             Some (Inl err)))"
proof -
  have bad: "\<not> font_loads sample_env ''nofont.ttf''"
    by (simp add: sample_env_def)
  have bg: "load_background sample_env (canvas default_style) None = Inr (Solid (40, 40, 40, 255))"
    by (simp add: load_background_def)
  have cols: "getrgb sample_env (box_color default_style) = Some (0, 0, 0)"
    "getrgb sample_env (shadow_color default_style) = Some (0, 0, 0)"
    by (simp_all add: sample_env_def default_style_def)
  from font_failure_per_slide[OF bad, of "[72, 105]" 0 None default_style]
  have a: "render_text_image 0 sample_env [72, 105] ''nofont.ttf'' None default_style
     \<noteq> Some (Inl FT_Exception)"
    by simp
  from font_failure_per_slide[OF bad, of "[2309, 2310]" 0 None default_style "''images''" None None 1 "[]"
      "[(''images/img_0.png'',
               \<lparr>fr_size = (720, 1280), fr_background = Solid (40, 40, 40, 255),
                  fr_box = (30, 609, 690, 670), fr_box_rgba = ((0, 0, 0), 153),
                  fr_font = DefaultFont, fr_lines = [[72, 105]],
                  fr_y = 629, fr_ink = (255, 255, 255), fr_shadow = None\<rparr>)]"] bg cols
  have b: "render_text_image 0 sample_env [2309, 2310] ''nofont.ttf'' None default_style
     = Some (Inl FT_Exception) \<and>
   (\<exists>err. generate_loop 0 sample_env ''nofont.ttf'' ''images'' None None default_style 1
             [[2309, 2310]]
             [(''images/img_0.png'',
               \<lparr>fr_size = (720, 1280), fr_background = Solid (40, 40, 40, 255),
                  fr_box = (30, 609, 690, 670), fr_box_rgba = ((0, 0, 0), 153),
                  fr_font = DefaultFont, fr_lines = [[72, 105]],
                  fr_y = 629, fr_ink = (255, 255, 255), fr_shadow = None\<rparr>)] =
            ([(''images/img_0.png'',
               \<lparr>fr_size = (720, 1280), fr_background = Solid (40, 40, 40, 255),
                  fr_box = (30, 609, 690, 670), fr_box_rgba = ((0, 0, 0), 153),
                  fr_font = DefaultFont, fr_lines = [[72, 105]],
                  fr_y = 629, fr_ink = (255, 255, 255), fr_shadow = None\<rparr>)],
             Some (Inl err)))"
    by simp
  from bad a b show ?thesis by blast
qed

end
